theory Spec2Isabelle
  imports Main "HOL-Library.Word"
begin

unbundle bit_operations_syntax

section \<open>Phase 3: job control (Phase 3/tinyshell.c)\<close>

subsection \<open>Constants and data\<close>

definition MAXLINE :: nat where "MAXLINE = 1024"
definition MAXARGS :: nat where "MAXARGS = 128"
definition MAXJOBS :: nat where "MAXJOBS = 16"

datatype job_state_t = UNDEF | FG | BG | ST

record job_t =
  pid :: int
  pgid :: int
  jid :: int
  state :: job_state_t
  cmdline :: string

text \<open>
  What \<open>waitpid\<close> reports about a child, as the four macros of \<open>sys/wait.h\<close> read it:
  the macros are exclusive on every status the kernel produces, so a status is one of
  four shapes.
\<close>

datatype wstatus = Exited int | Signaled int | Stopped int | Continued

datatype signal = SIGCHLD | SIGCONT | SIGINT | SIGTSTP | SIGTTIN | SIGTTOU

datatype disposition = SIG_DFL | SIG_IGN | Handler

text \<open>
  The arguments of a \<open>printf\<close>: an integer, a string, the text \<open>strsignal\<close>
  gives for a signal number, the text \<open>strerror(errno)\<close>, a raw wait status.
\<close>

datatype arg = I int | S string | Strsignal int | Strerror | W wstatus

text \<open>
  The calls by which a process acts on the world, in the order it makes them:
  \<open>printf\<close> and \<open>fprintf(stderr, ...)\<close> with format and arguments, \<open>kill\<close>,
  \<open>tcsetpgrp\<close> on standard input, \<open>sigprocmask\<close> blocking or unblocking one signal,
  \<open>fork\<close> with the value it returned, \<open>setpgid\<close>, \<open>sigsuspend\<close>, setting the
  disposition of a signal (\<open>signal\<close> or \<open>sigaction\<close>), \<open>perror\<close>, \<open>pipe\<close> with the
  two descriptors it returned, \<open>close\<close>, \<open>dup2\<close>, \<open>open\<close>.
\<close>

datatype effect =
    Printf string "arg list"
  | Eprintf string "arg list"
  | Kill int signal
  | Tcsetpgrp int
  | SigBlock signal
  | SigUnblock signal
  | Fork int
  | Setpgid int int
  | Sigsuspend
  | SetSignal signal disposition
  | Perror string
  | Pipe nat nat
  | Close nat
  | Dup2 nat nat
  | Open string "32 word" nat

text \<open>
  The state of the shell process: the global array \<open>jobs[MAXJOBS]\<close> (a list of
  slots, in index order), \<open>nextjid\<close>, \<open>shell_pgid\<close>, whether SIGCHLD is in the
  signal mask, the child state changes the kernel holds for \<open>waitpid\<close>, and the
  effects so far.
\<close>

record shell =
  jobs :: "job_t list"
  nextjid :: int
  shell_pgid :: int
  sigchld_blocked :: bool
  pending :: "(int \<times> wstatus) list"
  events :: "effect list"

subsection \<open>Job list helpers\<close>

definition clearjob :: "job_t \<Rightarrow> job_t" where
  "clearjob job = job\<lparr>pid := 0, pgid := 0, jid := 0, state := UNDEF, cmdline := []\<rparr>"

definition initjobs :: "shell \<Rightarrow> shell" where
  "initjobs s = s\<lparr>jobs := map clearjob (jobs s), nextjid := 1\<rparr>"

text \<open>The loop of \<open>addjob\<close> over the slots: the first slot with \<open>pid == 0\<close> is filled.\<close>

fun addjob_slots :: "job_t list \<Rightarrow> job_t \<Rightarrow> job_t list option" where
  "addjob_slots [] j = None"
| "addjob_slots (x # xs) j =
     (if pid x = 0 then Some (j # xs)
      else (case addjob_slots xs j of None \<Rightarrow> None | Some ys \<Rightarrow> Some (x # ys)))"

definition addjob :: "int \<Rightarrow> int \<Rightarrow> job_state_t \<Rightarrow> string \<Rightarrow> shell \<Rightarrow> shell \<times> int" where
  "addjob p pg st cl s =
     (case addjob_slots (jobs s)
             \<lparr>pid = p, pgid = pg, jid = nextjid s, state = st,
              cmdline = take (MAXLINE - 1) cl\<rparr> of
        Some js \<Rightarrow>
          (s\<lparr>jobs := js,
             nextjid := (if nextjid s + 1 > int MAXJOBS then 1 else nextjid s + 1)\<rparr>, 1)
      | None \<Rightarrow> (s\<lparr>events := events s @ [Eprintf ''tsh: too many jobs\<newline>'' []]\<rparr>, 0))"

fun deletejob_slots :: "job_t list \<Rightarrow> int \<Rightarrow> job_t list" where
  "deletejob_slots [] p = []"
| "deletejob_slots (x # xs) p =
     (if pid x = p then clearjob x # xs else x # deletejob_slots xs p)"

definition deletejob :: "int \<Rightarrow> shell \<Rightarrow> shell" where
  "deletejob p s = s\<lparr>jobs := deletejob_slots (jobs s) p\<rparr>"

text \<open>
  \<open>getjob_jid\<close> and \<open>getjob_pid\<close> return a pointer to the first matching slot, or
  NULL: here the index of that slot, or \<open>None\<close>.
\<close>

fun first_slot :: "(job_t \<Rightarrow> bool) \<Rightarrow> job_t list \<Rightarrow> nat option" where
  "first_slot P [] = None"
| "first_slot P (x # xs) =
     (if P x then Some 0
      else (case first_slot P xs of None \<Rightarrow> None | Some i \<Rightarrow> Some (Suc i)))"

definition getjob_jid :: "int \<Rightarrow> shell \<Rightarrow> nat option" where
  "getjob_jid j s = first_slot (\<lambda>x. jid x = j) (jobs s)"

definition getjob_pid :: "int \<Rightarrow> shell \<Rightarrow> nat option" where
  "getjob_pid p s = first_slot (\<lambda>x. pid x = p) (jobs s)"

definition fgpid :: "shell \<Rightarrow> int" where
  "fgpid s = (case first_slot (\<lambda>x. state x = FG) (jobs s) of
                None \<Rightarrow> 0 | Some i \<Rightarrow> pid (jobs s ! i))"

subsection \<open>The SIGCHLD handler\<close>

text \<open>
  The body of the handler's loop for one \<open>(pid, status)\<close> that \<open>waitpid\<close> returned.
\<close>

definition reap :: "int \<Rightarrow> wstatus \<Rightarrow> shell \<Rightarrow> shell" where
  "reap p w s =
     (case getjob_pid p s of
        None \<Rightarrow> s
      | Some i \<Rightarrow>
          (let job = jobs s ! i in
           case w of
             Stopped sg \<Rightarrow>
               s\<lparr>jobs := (jobs s)[i := job\<lparr>state := ST\<rparr>],
                 events := events s @
                   [Printf ''\<newline>[%d]+ Stopped    %s'' [I (jid job), S (cmdline job)]]\<rparr>
           | Continued \<Rightarrow> s
           | Signaled sg \<Rightarrow>
               deletejob p
                 (s\<lparr>events := events s @
                    [Printf ''\<newline>Job [%d] (%d) terminated by signal %d\<newline>''
                       [I (jid job), I p, I sg]]\<rparr>)
           | Exited c \<Rightarrow> deletejob p s))"

text \<open>
  The loop \<open>while ((pid = waitpid(-1, &status, WNOHANG | WUNTRACED | WCONTINUED)) > 0)\<close>
  over what the kernel holds: it stops at the first return that is not positive.
\<close>

fun drain :: "(int \<times> wstatus) list \<Rightarrow> shell \<Rightarrow> shell" where
  "drain [] s = s"
| "drain ((p, w) # rest) s = (if p > 0 then drain rest (reap p w s) else s)"

definition sigchld_handler :: "shell \<Rightarrow> shell" where
  "sigchld_handler s = (drain (pending s) s)\<lparr>pending := []\<rparr>"

text \<open>
  The kernel's side of SIGCHLD: child state changes \<open>new\<close> become pending; the
  handler runs when something is pending and SIGCHLD is not blocked.
\<close>

definition deliver :: "(int \<times> wstatus) list \<Rightarrow> shell \<Rightarrow> shell" where
  "deliver new s =
     (let s1 = s\<lparr>pending := pending s @ new\<rparr>
      in if sigchld_blocked s1 \<or> pending s1 = [] then s1 else sigchld_handler s1)"

subsection \<open>Parsing\<close>

text \<open>
  All the tokens that repeated calls of \<open>strtok\<close> return: the maximal runs of
  characters that are not delimiters.
\<close>

fun strtok_acc :: "char list \<Rightarrow> string \<Rightarrow> string \<Rightarrow> string list" where
  "strtok_acc delims cur [] = (if cur = [] then [] else [cur])"
| "strtok_acc delims cur (c # cs) =
     (if c \<in> set delims
      then (if cur = [] then strtok_acc delims [] cs else cur # strtok_acc delims [] cs)
      else strtok_acc delims (cur @ [c]) cs)"

definition strtok_all :: "char list \<Rightarrow> string \<Rightarrow> string list" where
  "strtok_all delims line = strtok_acc delims [] line"

text \<open>
  \<open>split_line\<close> of Phase 3 (delimiters space, tab, CR, LF; at most \<open>MAXARGS - 1\<close>
  tokens; a last token \<open>&\<close> is removed and sets \<open>bg\<close>). It returns the argument
  vector, whose length is \<open>argc\<close>, and \<open>bg\<close>.
\<close>

definition split_line_bg :: "string \<Rightarrow> string list \<times> bool" where
  "split_line_bg line =
     (let argv = take (MAXARGS - 1)
                   (strtok_all [CHR '' '', CHR 0x09, CHR 0x0D, CHR 0x0A] line)
      in if argv \<noteq> [] \<and> last argv = ''&'' then (butlast argv, True) else (argv, False))"

subsection \<open>The C library's \<open>atoi\<close>\<close>

text \<open>
  \<open>atoi(s)\<close> is \<open>(int) strtol(s, NULL, 10)\<close>: white space is skipped, an optional
  sign is read, then the longest run of decimal digits; \<open>strtol\<close> saturates at the
  bounds of \<open>long\<close> (64 bits) and the conversion to \<open>int\<close> keeps the low 32 bits.
\<close>

definition isspace :: "char \<Rightarrow> bool" where
  "isspace c = (c \<in> set [CHR '' '', CHR 0x09, CHR 0x0A, CHR 0x0B, CHR 0x0C, CHR 0x0D])"

definition isdigit :: "char \<Rightarrow> bool" where
  "isdigit c = (c \<in> set ''0123456789'')"

definition digits_value :: "string \<Rightarrow> int" where
  "digits_value ds = foldl (\<lambda>a c. 10 * a + (of_char c - 48)) 0 ds"

definition strtol10 :: "string \<Rightarrow> int" where
  "strtol10 str =
     (let s1 = dropWhile isspace str;
          neg = (s1 \<noteq> [] \<and> hd s1 = CHR ''-'');
          s2 = (if s1 \<noteq> [] \<and> (hd s1 = CHR ''-'' \<or> hd s1 = CHR ''+'') then tl s1 else s1);
          v = digits_value (takeWhile isdigit s2)
      in if neg then max (- (2 ^ 63)) (- v) else min (2 ^ 63 - 1) v)"

definition atoi :: "string \<Rightarrow> int" where
  "atoi str = sint (word_of_int (strtol10 str) :: 32 word)"

subsection \<open>Foreground wait\<close>

text \<open>
  How a call ends: it returns a value, the process exits with a code, the process image
  is replaced (\<open>exec\<close>), or the call never returns.
\<close>

datatype 'a run =
    Returns 'a shell
  | Exits int shell
  | Execs string "string list" shell
  | Blocks shell

text \<open>
  \<open>waitfg\<close>: each \<open>sigsuspend\<close> returns after one run of the SIGCHLD handler (the
  only handler installed). \<open>acts\<close> lists, for each such run to come, the child state
  changes that have become pending; when none is left the process is suspended for
  ever. The test \<open>fgpid() == pid\<close> and the \<open>sigsuspend\<close> that follows it are taken
  as one step.
\<close>

fun waitfg :: "int \<Rightarrow> (int \<times> wstatus) list list \<Rightarrow> shell \<Rightarrow> unit run" where
  "waitfg p [] s = (if fgpid s = p then Blocks s else Returns () s)"
| "waitfg p (a # acts) s =
     (if fgpid s = p
      then waitfg p acts
             (sigchld_handler
                (s\<lparr>pending := pending s @ a, events := events s @ [Sigsuspend]\<rparr>))
      else Returns () s)"

subsection \<open>Builtins: fg / bg / exit\<close>

text \<open>
  The child state changes that arrive after statement \<open>k\<close> of a sequence: none when
  the list is used up.
\<close>

definition arrival :: "(int \<times> wstatus) list list \<Rightarrow> nat \<Rightarrow> (int \<times> wstatus) list" where
  "arrival arr k = (case drop k arr of [] \<Rightarrow> [] | a # r \<Rightarrow> a)"

text \<open>
  \<open>do_bgfg\<close>. SIGCHLD is not blocked here, so the handler may run between any two
  statements: \<open>arr\<close> gives the child state changes that arrive after the lookup
  \<open>getjob_jid\<close> (before \<open>kill\<close>), after \<open>kill\<close>, after the assignment to
  \<open>job->state\<close> and after \<open>tcsetpgrp\<close>; \<open>acts\<close> is as in \<open>waitfg\<close>. \<open>job\<close> is a
  pointer to slot \<open>i\<close>: each \<open>job->...\<close> reads that slot as it is at that moment.
\<close>

definition do_bgfg ::
  "string list \<Rightarrow> bool \<Rightarrow> (int \<times> wstatus) list list \<Rightarrow> (int \<times> wstatus) list list
     \<Rightarrow> shell \<Rightarrow> unit run" where
  "do_bgfg argv fg arr acts s =
     (if length argv < 2 \<or> argv ! 1 = [] \<or> hd (argv ! 1) \<noteq> CHR ''%'' then
        Returns ()
          (s\<lparr>events := events s @
             [Eprintf ''%s command requires %%jobid\<newline>'' [S (if fg then ''fg'' else ''bg'')]]\<rparr>)
      else
        (case getjob_jid (atoi (tl (argv ! 1))) s of
           None \<Rightarrow>
             Returns ()
               (s\<lparr>events := events s @ [Eprintf ''%s: No such job\<newline>'' [S (argv ! 1)]]\<rparr>)
         | Some i \<Rightarrow>
             (let s1 = deliver (arrival arr 0) s;
                  s2 = deliver (arrival arr 1)
                         (s1\<lparr>events := events s1 @ [Kill (- pgid (jobs s1 ! i)) SIGCONT]\<rparr>)
              in if fg then
                   (let s3 = deliver (arrival arr 2)
                               (s2\<lparr>jobs := (jobs s2)[i := (jobs s2 ! i)\<lparr>state := FG\<rparr>]\<rparr>);
                        s4 = deliver (arrival arr 3)
                               (s3\<lparr>events := events s3 @ [Tcsetpgrp (pgid (jobs s3 ! i))]\<rparr>)
                    in case waitfg (pid (jobs s4 ! i)) acts s4 of
                         Returns u s5 \<Rightarrow>
                           Returns () (s5\<lparr>events := events s5 @ [Tcsetpgrp (shell_pgid s5)]\<rparr>)
                       | r \<Rightarrow> r)
                 else
                   (let s3 = deliver (arrival arr 2)
                               (s2\<lparr>jobs := (jobs s2)[i := (jobs s2 ! i)\<lparr>state := BG\<rparr>]\<rparr>)
                    in Returns ()
                         (s3\<lparr>events := events s3 @
                              [Printf ''[%d]+ %s&\<newline>''
                                 [I (jid (jobs s3 ! i)), S (cmdline (jobs s3 ! i))]]\<rparr>)))))"

text \<open>\<open>builtin_cmd\<close> returns 1 when the command was a builtin, 0 otherwise.\<close>

definition builtin_cmd ::
  "string list \<Rightarrow> (int \<times> wstatus) list list \<Rightarrow> (int \<times> wstatus) list list \<Rightarrow> shell \<Rightarrow> int run"
  where
  "builtin_cmd argv arr acts s =
     (if argv = [] then Returns 1 s
      else if hd argv = ''exit'' \<or> hd argv = ''quit'' then Exits 0 s
      else if hd argv = ''fg'' then
        (case do_bgfg argv True arr acts s of
           Returns u s' \<Rightarrow> Returns 1 s' | Exits c s' \<Rightarrow> Exits c s'
         | Execs f a s' \<Rightarrow> Execs f a s' | Blocks s' \<Rightarrow> Blocks s')
      else if hd argv = ''bg'' then
        (case do_bgfg argv False arr acts s of
           Returns u s' \<Rightarrow> Returns 1 s' | Exits c s' \<Rightarrow> Exits c s'
         | Execs f a s' \<Rightarrow> Execs f a s' | Blocks s' \<Rightarrow> Blocks s')
      else Returns 0 s)"

subsection \<open>eval\<close>

text \<open>
  What the environment decides during one command: the value \<open>fork\<close> returns in the
  calling process, whether \<open>execvp\<close> succeeds in the child, the child state changes
  that the kernel learns of after each statement of the launch sequence (or of
  \<open>do_bgfg\<close>, when the command is \<open>fg\<close> or \<open>bg\<close>), and those arriving during the
  foreground wait.
\<close>

record env =
  fork_ret :: int
  exec_ok :: bool
  arrivals :: "(int \<times> wstatus) list list"
  acts :: "(int \<times> wstatus) list list"

text \<open>
  A sequence of statements of the shell, with the kernel free to deliver SIGCHLD after
  each of them: \<open>arr\<close> gives the child state changes arriving after each statement.
\<close>

fun run_stmts :: "(shell \<Rightarrow> shell) list \<Rightarrow> (int \<times> wstatus) list list \<Rightarrow> shell \<Rightarrow> shell" where
  "run_stmts [] arr s = s"
| "run_stmts (f # fs) arr s =
     run_stmts fs (tl arr) (deliver (case arr of [] \<Rightarrow> [] | a # r \<Rightarrow> a) (f s))"

definition emit :: "effect \<Rightarrow> shell \<Rightarrow> shell" where
  "emit e s = s\<lparr>events := events s @ [e]\<rparr>"

definition sigprocmask_block :: "shell \<Rightarrow> shell" where
  "sigprocmask_block s = emit (SigBlock SIGCHLD) (s\<lparr>sigchld_blocked := True\<rparr>)"

definition sigprocmask_unblock :: "shell \<Rightarrow> shell" where
  "sigprocmask_unblock s = emit (SigUnblock SIGCHLD) (s\<lparr>sigchld_blocked := False\<rparr>)"

text \<open>
  The statements of \<open>eval\<close> from \<open>sigprocmask(SIG_BLOCK, ...)\<close> to
  \<open>sigprocmask(SIG_UNBLOCK, ...)\<close> in the calling process, where \<open>fork\<close> returned
  \<open>child\<close>.
\<close>

definition launch_stmts :: "int \<Rightarrow> bool \<Rightarrow> string \<Rightarrow> (shell \<Rightarrow> shell) list" where
  "launch_stmts child bg cl =
     [sigprocmask_block,
      emit (Fork child),
      emit (Setpgid child child),
      (\<lambda>s. fst (addjob child child (if bg then BG else FG) cl s)),
      sigprocmask_unblock]"

text \<open>The branch \<open>pid == 0\<close>: the new process, up to \<open>execvp\<close>.\<close>

definition eval_child :: "string list \<Rightarrow> bool \<Rightarrow> shell \<Rightarrow> unit run" where
  "eval_child argv ok s =
     (let s1 = emit (SetSignal SIGTTOU SIG_DFL) (emit (SetSignal SIGTTIN SIG_DFL)
                 (emit (SetSignal SIGTSTP SIG_DFL) (emit (SetSignal SIGINT SIG_DFL)
                   (emit (Setpgid 0 0) (sigprocmask_unblock s)))))
      in if ok then Execs (hd argv) argv s1 else Exits 1 (emit (Perror ''execvp'') s1))"

definition eval :: "string \<Rightarrow> env \<Rightarrow> shell \<Rightarrow> unit run" where
  "eval cl e s =
     (case split_line_bg (take (MAXLINE - 1) cl) of
        (argv, bg) \<Rightarrow>
          if argv = [] then Returns () s
          else
            (case builtin_cmd argv (arrivals e) (acts e) s of
               Exits c s' \<Rightarrow> Exits c s'
             | Execs f a s' \<Rightarrow> Execs f a s'
             | Blocks s' \<Rightarrow> Blocks s'
             | Returns b s' \<Rightarrow>
                 if b \<noteq> 0 then Returns () s'
                 else if fork_ret e = 0 then
                   eval_child argv (exec_ok e) (emit (Fork 0) (sigprocmask_block s'))
                 else
                   (let child = fork_ret e;
                        s1 = run_stmts (launch_stmts child bg cl) (arrivals e) s'
                    in if \<not> bg then
                         (case waitfg child (acts e) (emit (Tcsetpgrp child) s1) of
                            Returns u s2 \<Rightarrow> Returns () (emit (Tcsetpgrp (shell_pgid s2)) s2)
                          | r \<Rightarrow> r)
                       else
                         Returns ()
                           (emit (Printf ''[%d] %d\<newline>'' [I (nextjid s1 - 1), I child]) s1))))"

subsection \<open>main\<close>

text \<open>
  The shell before \<open>main\<close> runs: \<open>jobs\<close> and the other statics are zero, except
  \<open>nextjid\<close>, initialised to 1.
\<close>

definition startup :: shell where
  "startup =
     \<lparr>jobs = replicate MAXJOBS \<lparr>pid = 0, pgid = 0, jid = 0, state = UNDEF, cmdline = []\<rparr>,
      nextjid = 1, shell_pgid = 0, sigchld_blocked = False, pending = [], events = []\<rparr>"

text \<open>
  The command loop over the lines \<open>fgets\<close> returns, each with what the environment
  decides during it; end of input when the list is used up.
\<close>

fun command_loop :: "(string \<times> env) list \<Rightarrow> shell \<Rightarrow> unit run" where
  "command_loop [] s =
     Exits 0 (emit (Printf ''\<newline>'' []) (emit (Printf ''tsh> '' []) s))"
| "command_loop ((line, e) # rest) s =
     (case eval line e (emit (Printf ''tsh> '' []) s) of
        Returns u s' \<Rightarrow> command_loop rest s'
      | r \<Rightarrow> r)"

definition tsh_main :: "int \<Rightarrow> (string \<times> env) list \<Rightarrow> unit run" where
  "tsh_main self lines =
     command_loop lines
       (initjobs
          (emit (SetSignal SIGTTOU SIG_IGN) (emit (SetSignal SIGTTIN SIG_IGN)
            (emit (SetSignal SIGTSTP SIG_IGN) (emit (SetSignal SIGINT SIG_IGN)
              (emit (SetSignal SIGCHLD Handler)
                (emit (Tcsetpgrp self) (emit (Setpgid self self)
                  (startup\<lparr>shell_pgid := self\<rparr>)))))))))"


section \<open>Phases 1 and 2: commands, pipelines and redirection\<close>

subsection \<open>Constants and data\<close>

definition MAX_LINE :: nat where "MAX_LINE = 4096"
definition MAX_ARGS :: nat where "MAX_ARGS = 256"
definition MAX_CMDS :: nat where "MAX_CMDS = 32"

text \<open>
  A \<open>Command\<close> is its argument vector (\<open>argc\<close> is its length). A \<open>Pipeline\<close> holds
  the stages in use, their number, the redirection target (\<open>None\<close> for NULL) and the
  mode (0 for \<open>>\<close>, 1 for \<open>>>\<close>).
\<close>

record Pipeline =
  cmds :: "string list list"
  n_cmds :: nat
  outfile :: "string option"
  append_flag :: int

datatype parse_error =
    NoTokens | NearPipe | TooManyStages | RedirNoFile | MultiRedir | TooManyArgs
  | EmptyCommand

subsection \<open>The process and its environment\<close>

text \<open>
  What a file descriptor refers to: a descriptor the shell was started with, an end of
  the pipe made for \<open>pipes[i]\<close>, or a file opened by path, with its flags and offset.
\<close>

datatype ofile = Inherited nat | PipeR nat | PipeW nat | File string "32 word" nat

text \<open>
  A process as the code sees it: its descriptor table, the regular files by path, and
  the calls made so far.
\<close>

record proc =
  fdt :: "(nat \<times> ofile) list"
  files :: "string \<Rightarrow> string option"
  calls :: "effect list"

text \<open>
  What the environment decides during one command: \<open>PATH\<close>, which paths
  \<open>access(..., X_OK)\<close> accepts, which paths may be opened for writing, which calls of
  \<open>pipe\<close> succeed, what each \<open>fork\<close> returns in the process that is followed (a
  negative value: failure; 0: the new process is followed), whether \<open>execve\<close>
  succeeds, and what the calls of \<open>wait\<close> return before the one that fails.
\<close>

record penv =
  path_env :: "string option"
  x_ok :: "string \<Rightarrow> bool"
  may_open :: "string \<Rightarrow> bool"
  pipe_ok :: "nat \<Rightarrow> bool"
  fork_pid :: "nat \<Rightarrow> int"
  execve_ok :: bool
  reaped :: "(int \<times> wstatus) list"

text \<open>
  How a process ends: it terminates with a status, or its image is replaced. The status
  is what \<open>wait\<close> reports for the process: of the value returned from \<open>main\<close> or
  given to \<open>exit\<close> or \<open>_exit\<close>, the low eight bits (\<open>status & 0377\<close>).
\<close>

datatype finish = Finish int proc | Exec string "string list" proc

definition exit_status :: "int \<Rightarrow> int" where
  "exit_status c = c mod 256"

definition call :: "effect \<Rightarrow> proc \<Rightarrow> proc" where
  "call e p = p\<lparr>calls := calls p @ [e]\<rparr>"

text \<open>Values of \<open>fcntl.h\<close> (Linux).\<close>

definition O_WRONLY :: "32 word" where "O_WRONLY = 1"
definition O_CREAT :: "32 word" where "O_CREAT = 64"
definition O_TRUNC :: "32 word" where "O_TRUNC = 512"
definition O_APPEND :: "32 word" where "O_APPEND = 1024"

text \<open>The mode \<open>0666\<close> (octal).\<close>

definition rw_all :: nat where "rw_all = 438"

text \<open>The kernel gives the lowest descriptor that is not open.\<close>

definition lowest_free :: "(nat \<times> ofile) list \<Rightarrow> nat" where
  "lowest_free t = hd (filter (\<lambda>n. n \<notin> set (map fst t)) [0..<Suc (length t)])"

definition fd_close :: "nat \<Rightarrow> (nat \<times> ofile) list \<Rightarrow> (nat \<times> ofile) list" where
  "fd_close fd t = filter (\<lambda>e. fst e \<noteq> fd) t"

definition sys_pipe :: "nat \<Rightarrow> proc \<Rightarrow> (nat \<times> nat) \<times> proc" where
  "sys_pipe i p =
     (let r = lowest_free (fdt p);
          t1 = fdt p @ [(r, PipeR i)];
          w = lowest_free t1
      in ((r, w), call (Pipe r w) (p\<lparr>fdt := t1 @ [(w, PipeW i)]\<rparr>)))"

definition sys_close :: "nat \<Rightarrow> proc \<Rightarrow> proc" where
  "sys_close fd p = call (Close fd) (p\<lparr>fdt := fd_close fd (fdt p)\<rparr>)"

text \<open>\<open>dup2\<close> fails when the old descriptor is not open.\<close>

definition sys_dup2 :: "nat \<Rightarrow> nat \<Rightarrow> proc \<Rightarrow> proc option" where
  "sys_dup2 old new p =
     (case map_of (fdt p) old of
        None \<Rightarrow> None
      | Some f \<Rightarrow>
          Some (call (Dup2 old new)
                  (if old = new then p
                   else p\<lparr>fdt := fd_close new (fdt p) @ [(new, f)]\<rparr>)))"

text \<open>
  \<open>open(path, flags, mode)\<close> for writing: refused where the environment does not
  permit it; an absent file is created empty under \<open>O_CREAT\<close>; an existing file is
  emptied under \<open>O_TRUNC\<close> and kept otherwise. The offset starts at 0.
\<close>

definition sys_open :: "penv \<Rightarrow> string \<Rightarrow> 32 word \<Rightarrow> nat \<Rightarrow> proc \<Rightarrow> (nat \<times> proc) option" where
  "sys_open e path flags mode p =
     (let fd = lowest_free (fdt p);
          p1 = call (Open path flags mode) p
      in if \<not> may_open e path then None
         else
           (case files p path of
              None \<Rightarrow>
                if flags AND O_CREAT = 0 then None
                else Some (fd, p1\<lparr>fdt := fdt p @ [(fd, File path flags 0)],
                                  files := (files p)(path \<mapsto> [])\<rparr>)
            | Some c \<Rightarrow>
                Some (fd, p1\<lparr>fdt := fdt p @ [(fd, File path flags 0)],
                             files := (if flags AND O_TRUNC = 0 then files p
                                       else (files p)(path \<mapsto> []))\<rparr>)))"

text \<open>
  \<open>write(fd, data)\<close> on a descriptor of a regular file: at the end of the file under
  \<open>O_APPEND\<close>, at the offset otherwise. Writes to other descriptors leave the files
  as they are.
\<close>

definition sys_write :: "nat \<Rightarrow> string \<Rightarrow> proc \<Rightarrow> proc" where
  "sys_write fd data p =
     (case map_of (fdt p) fd of
        Some (File path flags off) \<Rightarrow>
          (case files p path of
             None \<Rightarrow> p
           | Some c \<Rightarrow>
               (let at = (if flags AND O_APPEND = 0 then off else length c);
                    c' = take at c @ replicate (at - length c) (CHR 0x00) @ data
                           @ drop (at + length data) c
                in p\<lparr>files := (files p)(path \<mapsto> c'),
                     fdt := map (\<lambda>e. if e = (fd, File path flags off)
                                      then (fd, File path flags (at + length data)) else e)
                              (fdt p)\<rparr>))
      | _ \<Rightarrow> p)"

subsection \<open>Reading a line\<close>

definition is_blank :: "char \<Rightarrow> bool" where
  "is_blank c = (c = CHR '' '' \<or> c = CHR 0x09 \<or> c = CHR 0x0A \<or> c = CHR 0x0D)"

definition trim :: "string \<Rightarrow> string" where
  "trim s = (let s1 = dropWhile is_blank s in rev (dropWhile is_blank (rev s1)))"

text \<open>\<open>split_line\<close> of Phases 1 and 2: the argument vector, whose length is \<open>argc\<close>.\<close>

definition split_line :: "string \<Rightarrow> nat \<Rightarrow> string list" where
  "split_line line max_args =
     take (max_args - 1) (strtok_all [CHR '' '', CHR 0x09, CHR 0x0A] line)"

subsection \<open>Finding the executable\<close>

definition path_candidates :: "penv \<Rightarrow> string \<Rightarrow> string list" where
  "path_candidates e command =
     map (\<lambda>dir. dir @ ''/'' @ command)
       (strtok_all '':'' (case path_env e of None \<Rightarrow> ''/bin:/usr/bin'' | Some v \<Rightarrow> v))"

text \<open>Phase 1: no test for the empty name.\<close>

definition find_executable_in_path1 :: "penv \<Rightarrow> string \<Rightarrow> string option" where
  "find_executable_in_path1 e command =
     (if CHR ''/'' \<in> set command
      then (if x_ok e command then Some command else None)
      else find (x_ok e) (path_candidates e command))"

definition find_executable_in_path :: "penv \<Rightarrow> string \<Rightarrow> string option" where
  "find_executable_in_path e command =
     (if command = [] then None
      else if CHR ''/'' \<in> set command
      then (if x_ok e command then Some command else None)
      else find (x_ok e) (path_candidates e command))"

subsection \<open>parse\_pipeline\<close>

text \<open>
  The loop over the tokens. \<open>prev\<close> holds the stages before the current one
  (\<open>cmds[0 .. cmd_idx - 1]\<close>, so \<open>n_cmds\<close> is \<open>length prev + 1\<close>), \<open>cur\<close> the
  argument vector of the current one, \<open>outf\<close> and \<open>app\<close> the redirection so far.
\<close>

fun parse_loop ::
  "string list \<Rightarrow> string list list \<Rightarrow> string list \<Rightarrow> string option \<Rightarrow> int
     \<Rightarrow> parse_error + (string list list \<times> string list \<times> string option \<times> int)" where
  "parse_loop [] prev cur outf app = Inr (prev, cur, outf, app)"
| "parse_loop (tok # rest) prev cur outf app =
     (if tok = ''|'' then
        (if length cur = 0 then Inl NearPipe
         else if length prev + 1 \<ge> MAX_CMDS then Inl TooManyStages
         else parse_loop rest (prev @ [cur]) [] outf app)
      else if tok = ''>'' \<or> tok = ''>>'' then
        (case rest of
           [] \<Rightarrow> Inl RedirNoFile
         | file # rest' \<Rightarrow>
             if outf \<noteq> None then Inl MultiRedir
             else parse_loop rest' prev cur (Some file)
                    (if length tok > 1 \<and> tok ! 1 = CHR ''>'' then 1 else 0))
      else
        (if length cur \<ge> MAX_ARGS - 1 then Inl TooManyArgs
         else parse_loop rest prev (cur @ [tok]) outf app))"

definition parse_pipeline :: "string list \<Rightarrow> parse_error + Pipeline" where
  "parse_pipeline tokens =
     (if length tokens = 0 then Inl NoTokens
      else
        (case parse_loop tokens [] [] None 0 of
           Inl err \<Rightarrow> Inl err
         | Inr (prev, cur, outf, app) \<Rightarrow>
             if length cur = 0 then Inl EmptyCommand
             else Inr \<lparr>cmds = prev @ [cur], n_cmds = length prev + 1,
                       outfile = outf, append_flag = app\<rparr>))"

text \<open>What \<open>parse_pipeline\<close> writes to the error stream before it returns -1.\<close>

fun parse_message :: "parse_error \<Rightarrow> effect list" where
  "parse_message NoTokens = []"
| "parse_message NearPipe = [Eprintf ''tinyshell: syntax error near '|'\<newline>'' []]"
| "parse_message TooManyStages =
     [Eprintf ''tinyshell: too many pipeline stages (max %d)\<newline>'' [I (int MAX_CMDS)]]"
| "parse_message RedirNoFile = [Eprintf ''tinyshell: redirection without filename\<newline>'' []]"
| "parse_message MultiRedir = [Eprintf ''tinyshell: multiple output redirections\<newline>'' []]"
| "parse_message TooManyArgs = [Eprintf ''tinyshell: too many arguments\<newline>'' []]"
| "parse_message EmptyCommand = [Eprintf ''tinyshell: empty command in pipeline\<newline>'' []]"

subsection \<open>execute\_pipeline\<close>

text \<open>The loop that creates the pipes, over \<open>i = 0, ..., n - 2\<close>.\<close>

fun pipes_loop ::
  "penv \<Rightarrow> nat list \<Rightarrow> (nat \<times> nat) list \<Rightarrow> proc \<Rightarrow> (nat \<times> nat) list option \<times> proc" where
  "pipes_loop e [] pipes p = (Some pipes, p)"
| "pipes_loop e (i # is) pipes p =
     (if pipe_ok e i
      then (case sys_pipe i p of (rw, p') \<Rightarrow> pipes_loop e is (pipes @ [rw]) p')
      else (None, call (Perror ''pipe'') p))"

text \<open>Closing both ends of every pipe, in the order of \<open>pipes\<close>.\<close>

fun close_pipes :: "(nat \<times> nat) list \<Rightarrow> proc \<Rightarrow> proc" where
  "close_pipes [] p = p"
| "close_pipes ((r, w) # rest) p = close_pipes rest (sys_close w (sys_close r p))"

text \<open>
  The wiring of stage \<open>i\<close> in its new process, up to and including the closing of the
  pipes: \<open>Inl\<close> when the process leaves with \<open>_exit(1)\<close>.
\<close>

definition redirect_output :: "penv \<Rightarrow> Pipeline \<Rightarrow> string \<Rightarrow> proc \<Rightarrow> proc + proc" where
  "redirect_output e pl path p =
     (let flags = (O_WRONLY OR O_CREAT) OR (if append_flag pl \<noteq> 0 then O_APPEND else O_TRUNC)
      in case sys_open e path flags rw_all p of
           None \<Rightarrow> Inl (call (Perror path) (call (Open path flags rw_all) p))
         | Some (fd, p1) \<Rightarrow>
             (case sys_dup2 fd 1 p1 of
                None \<Rightarrow> Inl (sys_close fd (call (Perror ''dup2 redirect'') p1))
              | Some p2 \<Rightarrow> Inr (sys_close fd p2)))"

definition child_wire ::
  "penv \<Rightarrow> Pipeline \<Rightarrow> (nat \<times> nat) list \<Rightarrow> nat \<Rightarrow> proc \<Rightarrow> proc + proc" where
  "child_wire e pl pipes i p =
     (let n = n_cmds pl in
      case (if i > 0 then sys_dup2 (fst (pipes ! (i - 1))) 0 p else Some p) of
        None \<Rightarrow> Inl (call (Perror ''dup2 stdin'') p)
      | Some p1 \<Rightarrow>
          (case (if i + 1 < n then sys_dup2 (snd (pipes ! i)) 1 p1 else Some p1) of
             None \<Rightarrow> Inl (call (Perror ''dup2 stdout'') p1)
           | Some p2 \<Rightarrow>
               (case (if i + 1 = n \<and> outfile pl \<noteq> None
                      then redirect_output e pl (the (outfile pl)) p2 else Inr p2) of
                  Inl p3 \<Rightarrow> Inl p3
                | Inr p3 \<Rightarrow> Inr (close_pipes (take (n - 1) pipes) p3))))"

text \<open>The whole branch \<open>pid == 0\<close> of stage \<open>i\<close>.\<close>

definition child_stage ::
  "penv \<Rightarrow> Pipeline \<Rightarrow> (nat \<times> nat) list \<Rightarrow> nat \<Rightarrow> proc \<Rightarrow> finish" where
  "child_stage e pl pipes i p =
     (case child_wire e pl pipes i p of
        Inl p1 \<Rightarrow> Finish (exit_status 1) p1
      | Inr p1 \<Rightarrow>
          (let argv = cmds pl ! i in
           case (case argv of [] \<Rightarrow> None | a # as \<Rightarrow> find_executable_in_path e a) of
             None \<Rightarrow>
               Finish (exit_status 127)
                 (call (Eprintf ''tinyshell: command not found: %s\<newline>'' [S (hd argv)]) p1)
           | Some prog \<Rightarrow>
               if execve_ok e then Exec prog argv p1
               else Finish (exit_status 127) (call (Perror ''execve'') p1)))"

text \<open>
  The loop that forks the stages, over \<open>i = 0, ..., n - 1\<close>: \<open>Inl\<close> when the process
  followed is a new one, with its end; \<open>Inr\<close> when it is the launcher.
\<close>

fun fork_loop ::
  "penv \<Rightarrow> Pipeline \<Rightarrow> (nat \<times> nat) list \<Rightarrow> nat list \<Rightarrow> proc \<Rightarrow> finish + proc" where
  "fork_loop e pl pipes [] p = Inr p"
| "fork_loop e pl pipes (i # is) p =
     (let child = fork_pid e i; p1 = call (Fork child) p
      in if child < 0 then Inr (call (Perror ''fork'') p1)
         else if child = 0 then Inl (child_stage e pl pipes i p1)
         else fork_loop e pl pipes is p1)"

text \<open>The loop \<open>while ((wpid = wait(&status)) > 0)\<close>.\<close>

fun wait_loop :: "(int \<times> wstatus) list \<Rightarrow> proc \<Rightarrow> proc" where
  "wait_loop [] p = p"
| "wait_loop ((wpid, w) # rest) p =
     (if wpid > 0 then
        wait_loop rest
          (case w of
             Exited c \<Rightarrow> call (Printf ''[pid %d] exited with code %d\<newline>'' [I wpid, I c]) p
           | Signaled sg \<Rightarrow>
               call (Printf ''[pid %d] killed by signal %d (%s)\<newline>''
                       [I wpid, I sg, Strsignal sg]) p
           | _ \<Rightarrow> call (Printf ''[pid %d] ended with status 0x%x\<newline>'' [I wpid, W w]) p)
      else p)"

definition execute_pipeline :: "penv \<Rightarrow> Pipeline \<Rightarrow> proc \<Rightarrow> finish + proc" where
  "execute_pipeline e pl p =
     (let n = n_cmds pl in
      case pipes_loop e [0..<n - 1] [] p of
        (None, p1) \<Rightarrow> Inr p1
      | (Some pipes, p1) \<Rightarrow>
          (case fork_loop e pl pipes [0..<n] p1 of
             Inl fin \<Rightarrow> Inl fin
           | Inr p2 \<Rightarrow> Inr (wait_loop (reaped e) (close_pipes pipes p2))))"

subsection \<open>main\<close>

text \<open>
  One turn of the command loop of Phase 2 on the buffer \<open>fgets\<close> filled: \<open>Inl\<close> when
  the process ends, \<open>Inr\<close> when the loop goes on to the next command.
\<close>

definition command2 :: "penv \<Rightarrow> string \<Rightarrow> proc \<Rightarrow> finish + proc" where
  "command2 e linebuf p0 =
     (let p = call (Printf ''tinyshell$ '' []) p0;
          line = trim linebuf
      in if line = [] then Inr p
         else
           (let tokens = split_line line MAX_ARGS; argc = length tokens
            in if argc = 0 then Inr p
               else if hd tokens = ''exit'' then
                 (let exit_code = (if argc \<ge> 2 then atoi (tokens ! 1) else 0)
                  in Inl (Finish (exit_status exit_code)
                            (call (Printf ''Exiting (exit %d)\<newline>'' [I exit_code]) p)))
               else
                 (case parse_pipeline tokens of
                    Inl err \<Rightarrow> Inr (p\<lparr>calls := calls p @ parse_message err\<rparr>)
                  | Inr pl \<Rightarrow> execute_pipeline e pl p)))"

fun main2 :: "(string \<times> penv) list \<Rightarrow> proc \<Rightarrow> finish" where
  "main2 [] p =
     Finish (exit_status 0)
       (call (Printf ''\<newline>Exiting (EOF)\<newline>'' []) (call (Printf ''tinyshell$ '' []) p))"
| "main2 ((linebuf, e) # rest) p =
     (case command2 e linebuf p of Inl fin \<Rightarrow> fin | Inr p' \<Rightarrow> main2 rest p')"

text \<open>One turn of the command loop of Phase 1.\<close>

definition command1 :: "penv \<Rightarrow> string \<Rightarrow> proc \<Rightarrow> finish + proc" where
  "command1 e linebuf p0 =
     (let p = call (Printf ''tinyshell$ '' []) p0;
          line = trim linebuf
      in if line = [] then Inr p
         else
           (let argv = split_line line MAX_ARGS; argc = length argv
            in if argc = 0 then Inr p
               else if hd argv = ''exit'' then
                 (let exit_code = (if argc \<ge> 2 then atoi (argv ! 1) else 0)
                  in Inl (Finish (exit_status exit_code)
                            (call (Printf ''Exiting (exit %d)\<newline>'' [I exit_code]) p)))
               else
                 (case find_executable_in_path1 e (hd argv) of
                    None \<Rightarrow>
                      Inr (call (Eprintf ''tinyshell: command not found: %s\<newline>''
                                   [S (hd argv)]) p)
                  | Some program_path \<Rightarrow>
                      (let child = fork_pid e 0; p1 = call (Fork child) p
                       in if child < 0 then Inr (call (Perror ''fork'') p1)
                          else if child = 0 then
                            (if execve_ok e then Inl (Exec program_path argv p1)
                             else Inl (Finish (exit_status 127)
                                    (call (Eprintf ''tinyshell: failed to exec %s: %s\<newline>''
                                             [S program_path, Strerror]) p1)))
                          else
                            (case reaped e of
                               [] \<Rightarrow> Inr (call (Perror ''waitpid'') p1)
                             | (wpid, w) # rest \<Rightarrow>
                                 Inr (case w of
                                        Exited c \<Rightarrow>
                                          call (Printf ''[pid %d] exited with code %d\<newline>''
                                                  [I child, I c]) p1
                                      | Signaled sg \<Rightarrow>
                                          call (Printf ''[pid %d] killed by signal %d (%s)\<newline>''
                                                  [I child, I sg, Strsignal sg]) p1
                                      | _ \<Rightarrow>
                                          call (Printf ''[pid %d] ended with status 0x%x\<newline>''
                                                  [I child, W w]) p1))))))"

fun main1 :: "(string \<times> penv) list \<Rightarrow> proc \<Rightarrow> finish" where
  "main1 [] p =
     Finish (exit_status 0)
       (call (Printf ''\<newline>Exiting (EOF)\<newline>'' []) (call (Printf ''tinyshell$ '' []) p))"
| "main1 ((linebuf, e) # rest) p =
     (case command1 e linebuf p of Inl fin \<Rightarrow> fin | Inr p' \<Rightarrow> main1 rest p')"

section \<open>Observations and examples used in the statements\<close>

subsection \<open>Phase 3\<close>

text \<open>The state in which a call ended.\<close>

fun final :: "'a run \<Rightarrow> shell" where
  "final (Returns v s) = s"
| "final (Exits c s) = s"
| "final (Execs f a s) = s"
| "final (Blocks s) = s"

text \<open>The signals sent, with their targets, in order.\<close>

fun kills :: "effect list \<Rightarrow> (int \<times> signal) list" where
  "kills [] = []"
| "kills (Kill t sg # es) = (t, sg) # kills es"
| "kills (e # es) = kills es"

text \<open>What was written to the error stream.\<close>

fun errors :: "effect list \<Rightarrow> effect list" where
  "errors [] = []"
| "errors (Eprintf f a # es) = Eprintf f a # errors es"
| "errors (Perror m # es) = Perror m # errors es"
| "errors (e # es) = errors es"


text \<open>The job ids of the live entries (the slots whose \<open>pid\<close> is not 0).\<close>

definition live_jids :: "shell \<Rightarrow> int list" where
  "live_jids s = map jid (filter (\<lambda>j. pid j \<noteq> 0) (jobs s))"

text \<open>A slot at index 0 that is free (\<open>pid == 0\<close>) and yet in state \<open>FG\<close>.\<close>

definition ghost_fg :: "shell \<Rightarrow> bool" where
  "ghost_fg s = (\<exists>x xs. jobs s = x # xs \<and> pid x = 0 \<and> state x = FG)"

text \<open>
  Two states reached from the empty table: sixteen background jobs with the process
  ids 1 to 16, and one foreground job with the process id 100. An environment in
  which \<open>fork\<close> returns 100 and no child changes state.
\<close>

definition sixteen_jobs :: shell where
  "sixteen_jobs =
     fold (\<lambda>p s. fst (addjob p p BG ''sleep 100 &'' s)) (map int [1..<17]) startup"


definition quiet_env :: env where
  "quiet_env = \<lparr>fork_ret = 100, exec_ok = True, arrivals = [], acts = []\<rparr>"

text \<open>
  An environment in which \<open>fork\<close> fails, and one in which the process 100 exits right
  after the first statement of the command.
\<close>

definition fork_fails :: env where
  "fork_fails = \<lparr>fork_ret = - 1, exec_ok = True, arrivals = [], acts = []\<rparr>"

definition exit_before_kill :: env where
  "exit_before_kill =
     \<lparr>fork_ret = 100, exec_ok = True, arrivals = [[(100, Exited 0)]], acts = []\<rparr>"

subsection \<open>Decimal numerals\<close>

text \<open>The decimal numeral of an integer, as a user types it.\<close>

fun decimal :: "nat \<Rightarrow> string" where
  "decimal n = (if n < 10 then [''0123456789'' ! n] else decimal (n div 10) @ [''0123456789'' ! (n mod 10)])"

declare decimal.simps [simp del]

definition numeral_of :: "int \<Rightarrow> string" where
  "numeral_of i = (if i < 0 then CHR ''-'' # decimal (nat (- i)) else decimal (nat i))"

subsection \<open>The grammar of a token sequence\<close>

text \<open>
  The role of each token, read from left to right: \<open>|\<close> separates stages; \<open>>\<close> or
  \<open>>>\<close> is a redirection operator and takes the next token, whatever its text, as
  the file name (\<open>True\<close> for \<open>>>\<close>); a redirection operator with no next token is
  \<open>RedirEnd\<close>; every other token is a word.
\<close>

datatype item = Word string | Bar | Redir string bool | RedirEnd

fun scan :: "string list \<Rightarrow> item list" where
  "scan [] = []"
| "scan (t # ts) =
     (if t = ''|'' then Bar # scan ts
      else if t = ''>'' \<or> t = ''>>'' then
        (case ts of [] \<Rightarrow> [RedirEnd] | f # r \<Rightarrow> Redir f (t = ''>>'') # scan r)
      else Word t # scan ts)"

text \<open>The words of each stage: the items are cut at every \<open>Bar\<close>.\<close>

fun stages_of :: "item list \<Rightarrow> string list list" where
  "stages_of [] = [[]]"
| "stages_of (Bar # its) = [] # stages_of its"
| "stages_of (Word w # its) = (w # hd (stages_of its)) # tl (stages_of its)"
| "stages_of (Redir f b # its) = stages_of its"
| "stages_of (RedirEnd # its) = stages_of its"

text \<open>The number of redirection operators, and the first redirection with a file name.\<close>

fun redirs :: "item list \<Rightarrow> nat" where
  "redirs [] = 0"
| "redirs (Redir f b # its) = Suc (redirs its)"
| "redirs (RedirEnd # its) = Suc (redirs its)"
| "redirs (it # its) = redirs its"

fun redirection :: "item list \<Rightarrow> (string \<times> bool) option" where
  "redirection [] = None"
| "redirection (Redir f b # its) = Some (f, b)"
| "redirection (it # its) = redirection its"

text \<open>
  The five conditions of failure as C5 states them: an empty stage next to a \<open>|\<close>, a
  redirection operator as last token, more than one redirection operator, more stages
  than \<open>MAX_CMDS\<close>, a stage with more arguments than the \<open>MAX_ARGS - 1\<close> that fit.
\<close>

definition stated_failure :: "string list \<Rightarrow> bool" where
  "stated_failure ts =
     ((Bar \<in> set (scan ts) \<and> [] \<in> set (stages_of (scan ts))) \<or>
      RedirEnd \<in> set (scan ts) \<or>
      1 < redirs (scan ts) \<or>
      MAX_CMDS < length (stages_of (scan ts)) \<or>
      (\<exists>st\<in>set (stages_of (scan ts)). MAX_ARGS - 1 < length st))"

text \<open>The same, with any empty stage, whether or not a \<open>|\<close> is present.\<close>

definition parse_failure :: "string list \<Rightarrow> bool" where
  "parse_failure ts =
     ([] \<in> set (stages_of (scan ts)) \<or>
      RedirEnd \<in> set (scan ts) \<or>
      1 < redirs (scan ts) \<or>
      MAX_CMDS < length (stages_of (scan ts)) \<or>
      (\<exists>st\<in>set (stages_of (scan ts)). MAX_ARGS - 1 < length st))"

text \<open>
  The conditions seen from the middle of the loop of \<open>parse_pipeline\<close>, for the items
  still to come, and what counts as failure of the loop together with the test that
  follows it.
\<close>

definition fails_from :: "string list list \<Rightarrow> string list \<Rightarrow> string option \<Rightarrow> item list \<Rightarrow> bool" where
  "fails_from prev cur outf its =
     (let sts = (cur @ hd (stages_of its)) # tl (stages_of its) in
      [] \<in> set sts \<or>
      RedirEnd \<in> set its \<or>
      (if outf = None then 1 else 0) < redirs its \<or>
      MAX_CMDS < length prev + length sts \<or>
      (\<exists>st\<in>set sts. MAX_ARGS - 1 < length st))"

definition loop_fails :: "parse_error + (string list list \<times> string list \<times> string option \<times> int) \<Rightarrow> bool" where
  "loop_fails r = (case r of Inl err \<Rightarrow> True | Inr (pv, c, out, ap) \<Rightarrow> c = [])"

subsection \<open>Phases 1 and 2\<close>

text \<open>The status with which a process terminated, when it did.\<close>

fun ended_with :: "finish \<Rightarrow> int option" where
  "ended_with (Finish c p) = Some c"
| "ended_with (Exec f a p) = None"

text \<open>The process in which a \<open>finish\<close> happened.\<close>

fun proc_of :: "finish \<Rightarrow> proc" where
  "proc_of (Finish c p) = p"
| "proc_of (Exec f a p) = p"

text \<open>The program and the argument vector given to \<open>execve\<close>, when it succeeded.\<close>

fun program_of :: "finish \<Rightarrow> (string \<times> string list) option" where
  "program_of (Exec f a p) = Some (f, a)"
| "program_of (Finish c p) = None"

text \<open>The pairs returned by \<open>pipe\<close>, the descriptors closed, the values of \<open>fork\<close>.\<close>

fun pipe_calls :: "effect list \<Rightarrow> (nat \<times> nat) list" where
  "pipe_calls [] = []"
| "pipe_calls (Pipe r w # es) = (r, w) # pipe_calls es"
| "pipe_calls (e # es) = pipe_calls es"

fun closed_fds :: "effect list \<Rightarrow> nat list" where
  "closed_fds [] = []"
| "closed_fds (Close fd # es) = fd # closed_fds es"
| "closed_fds (e # es) = closed_fds es"

fun forks :: "effect list \<Rightarrow> int list" where
  "forks [] = []"
| "forks (Fork c # es) = c # forks es"
| "forks (e # es) = forks es"

text \<open>The descriptors of a list of pipes, and their entries in the descriptor table.\<close>

fun pipe_ends :: "(nat \<times> nat) list \<Rightarrow> nat list" where
  "pipe_ends [] = []"
| "pipe_ends ((r, w) # ps) = r # w # pipe_ends ps"

fun pipe_entries :: "nat list \<Rightarrow> (nat \<times> nat) list \<Rightarrow> (nat \<times> ofile) list" where
  "pipe_entries (i # is) ((r, w) # ps) = (r, PipeR i) # (w, PipeW i) # pipe_entries is ps"
| "pipe_entries is ps = []"

text \<open>
  The flags that \<open>execute_pipeline\<close> passes to \<open>open\<close>, and the content of the target
  file once it is opened with them.
\<close>

definition redirect_flags :: "Pipeline \<Rightarrow> 32 word" where
  "redirect_flags pl = (O_WRONLY OR O_CREAT) OR (if append_flag pl \<noteq> 0 then O_APPEND else O_TRUNC)"

definition redirect_content :: "Pipeline \<Rightarrow> string option \<Rightarrow> string" where
  "redirect_content pl old =
     (if append_flag pl \<noteq> 0 then (case old of None \<Rightarrow> [] | Some c \<Rightarrow> c) else [])"

text \<open>
  Examples: a process started with the descriptors 0, 1 and 2 and no file; the same
  with a file \<open>out.txt\<close>; an environment in which every call succeeds and the
  launcher is followed; the same with the process of stage \<open>k\<close> followed; the
  pipeline of \<open>ls | grep c | wc >> out.txt\<close>.
\<close>

definition tty_proc :: proc where
  "tty_proc = \<lparr>fdt = [(0, Inherited 0), (1, Inherited 1), (2, Inherited 2)],
               files = (\<lambda>path. None), calls = []\<rparr>"

definition old_file :: proc where
  "old_file = tty_proc\<lparr>files := (\<lambda>path. if path = ''out.txt'' then Some ''old'' else None)\<rparr>"

text \<open>
  A shell started with its standard output closed (\<open>./tinyshell >&-\<close>): the descriptors
  0 and 2 are open, 1 is not; the file \<open>out.txt\<close> exists.
\<close>

definition no_stdout :: proc where
  "no_stdout = old_file\<lparr>fdt := [(0, Inherited 0), (2, Inherited 2)]\<rparr>"

definition plain_env :: penv where
  "plain_env = \<lparr>path_env = Some ''/bin:/usr/bin'', x_ok = (\<lambda>path. True),
                may_open = (\<lambda>path. True), pipe_ok = (\<lambda>i. True),
                fork_pid = (\<lambda>i. 100 + int i), execve_ok = True, reaped = []\<rparr>"

definition follow :: "nat \<Rightarrow> penv" where
  "follow k = plain_env\<lparr>fork_pid := (\<lambda>i. if i = k then 0 else 100 + int i)\<rparr>"

definition three_stages :: Pipeline where
  "three_stages =
     \<lparr>cmds = [[''ls''], [''grep'', ''c''], [''wc'']], n_cmds = 3,
      outfile = Some ''out.txt'', append_flag = 1\<rparr>"

section \<open>Phase 3: the job table and the SIGCHLD handler\<close>

subsection \<open>Searching and clearing slots\<close>

lemma first_slot_exists: "\<exists>x\<in>set js. P x \<Longrightarrow> first_slot P js \<noteq> None"
  by (induction js) fastforce+


lemma addjob_slots_free:
  "\<exists>x\<in>set js. pid x = 0 \<Longrightarrow> \<exists>js'. addjob_slots js j = Some js' \<and> j \<in> set js'"
  by (induction js) fastforce+

lemma addjob_registers:
  assumes "\<exists>x\<in>set (jobs s). pid x = 0"
  shows "getjob_pid p (fst (addjob p pg st cl s)) \<noteq> None"
proof -
  let ?j = "\<lparr>pid = p, pgid = pg, jid = nextjid s, state = st,
             cmdline = take (MAXLINE - 1) cl\<rparr>"
  from addjob_slots_free [OF assms]
  obtain js' where js: "addjob_slots (jobs s) ?j = Some js'" "?j \<in> set js'"
    by blast
  from js(2) have "\<exists>x\<in>set js'. pid x = p" by force
  then have "first_slot (\<lambda>x. pid x = p) js' \<noteq> None" by (rule first_slot_exists)
  with js(1) show ?thesis by (simp add: addjob_def getjob_pid_def)
qed

lemma addjob_events_free:
  assumes "\<exists>x\<in>set (jobs s). pid x = 0"
  shows "events (fst (addjob p pg st cl s)) = events s"
proof -
  let ?j = "\<lparr>pid = p, pgid = pg, jid = nextjid s, state = st,
             cmdline = take (MAXLINE - 1) cl\<rparr>"
  from addjob_slots_free [OF assms]
  obtain js' where "addjob_slots (jobs s) ?j = Some js'" by blast
  then show ?thesis by (simp add: addjob_def)
qed

lemma addjob_fields:
  "sigchld_blocked (fst (addjob p pg st cl s)) = sigchld_blocked s"
  "pending (fst (addjob p pg st cl s)) = pending s"
  "fst (addjob p pg st cl (s\<lparr>pending := q\<rparr>)) = (fst (addjob p pg st cl s))\<lparr>pending := q\<rparr>"
  by (auto simp: addjob_def split: option.splits)

subsection \<open>One notification\<close>






lemma first_slot_None: "\<forall>k<length js. \<not> P (js ! k) \<Longrightarrow> first_slot P js = None"
proof (induction js)
  case Nil
  then show ?case by simp
next
  case (Cons x js)
  from Cons.prems have "\<not> P x" by auto
  moreover from Cons.prems have "\<forall>k<length js. \<not> P (js ! k)" by auto
  ultimately show ?case using Cons.IH by simp
qed





subsection \<open>Job ids\<close>

text \<open>
  C2. The claim is that the job ids of the live entries are always pairwise distinct.
  From the empty table: sixteen jobs are added (they take the ids 1 to 16 and
  \<open>nextjid\<close> wraps to 1), the job with process id 2 is deleted, and one more job is
  added. It goes to the freed slot 1 and takes the id 1, which the live job of slot 0
  still holds.
\<close>

theorem addjob_reuses_live_jid:
  "live_jids (fst (addjob 17 17 BG ''sleep 100 &'' (deletejob 2 sixteen_jobs))) =
     [1, 1, 3, 4, 5, 6, 7, 8, 9, 10, 11, 12, 13, 14, 15, 16] \<and>
   \<not> distinct (live_jids (fst (addjob 17 17 BG ''sleep 100 &'' (deletejob 2 sixteen_jobs))))"
  by code_simp

subsection \<open>Signals sent by fg and bg\<close>

lemma kills_append: "kills (xs @ ys) = kills xs @ kills ys"
  by (induction xs rule: kills.induct) auto

lemma kills_reap: "kills (events (reap p w s)) = kills (events s)"
  by (auto simp: reap_def deletejob_def Let_def kills_append
           split: option.splits wstatus.splits)

lemma kills_drain: "kills (events (drain ns s)) = kills (events s)"
  by (induction ns s rule: drain.induct) (auto simp: kills_reap)

lemma kills_handler: "kills (events (sigchld_handler s)) = kills (events s)"
  by (simp add: sigchld_handler_def kills_drain)

lemma kills_waitfg: "kills (events (final (waitfg p sched s))) = kills (events s)"
proof (induction sched arbitrary: s)
  case Nil
  then show ?case by simp
next
  case (Cons a sched)
  show ?case
  proof (cases "fgpid s = p")
    case True
    then show ?thesis
      by (simp add: Cons.IH kills_handler kills_append)
  next
    case False
    then show ?thesis by simp
  qed
qed

lemma waitfg_cases:
  "(\<exists>s'. waitfg p sched s = Returns () s') \<or> (\<exists>s'. waitfg p sched s = Blocks s')"
  by (induction sched arbitrary: s) auto

lemma kills_deliver: "kills (events (deliver new s)) = kills (events s)"
  by (simp add: deliver_def Let_def kills_handler)

text \<open>
  When \<open>fg\<close> or \<open>bg\<close> names a job id that \<open>getjob_jid\<close> finds in slot \<open>i\<close>, the call
  sends exactly one signal, whether or not it returns: SIGCONT to the negative of the
  process-group id that slot \<open>i\<close> holds when \<open>kill\<close> is called, which is after the
  handler has treated what arrived since the lookup.
\<close>

lemma do_bgfg_kill:
  assumes "2 \<le> length argv" and "argv ! 1 \<noteq> []" and "hd (argv ! 1) = CHR ''%''"
    and "getjob_jid (atoi (tl (argv ! 1))) s = Some i"
  shows "kills (events (final (do_bgfg argv fg arr sched s))) =
           kills (events s) @ [(- pgid (jobs (deliver (arrival arr 0) s) ! i), SIGCONT)]"
proof (cases fg)
  case False
  with assms show ?thesis
    by (simp add: do_bgfg_def Let_def kills_append kills_deliver)
next
  case True
  define s1 where "s1 = deliver (arrival arr 0) s"
  define s2 where "s2 = deliver (arrival arr 1)
                         (s1\<lparr>events := events s1 @ [Kill (- pgid (jobs s1 ! i)) SIGCONT]\<rparr>)"
  define s3 where "s3 = deliver (arrival arr 2)
                         (s2\<lparr>jobs := (jobs s2)[i := (jobs s2 ! i)\<lparr>state := FG\<rparr>]\<rparr>)"
  define s4 where "s4 = deliver (arrival arr 3)
                         (s3\<lparr>events := events s3 @ [Tcsetpgrp (pgid (jobs s3 ! i))]\<rparr>)"
  have k4: "kills (events s4) = kills (events s) @ [(- pgid (jobs s1 ! i), SIGCONT)]"
    by (simp add: s4_def s3_def s2_def s1_def kills_deliver kills_append)
  have k: "kills (events (final (waitfg (pid (jobs s4 ! i)) sched s4))) =
           kills (events s) @ [(- pgid (jobs s1 ! i), SIGCONT)]"
    by (simp add: kills_waitfg k4)
  have d: "do_bgfg argv fg arr sched s =
      (case waitfg (pid (jobs s4 ! i)) sched s4 of
         Returns u s5 \<Rightarrow> Returns () (s5\<lparr>events := events s5 @ [Tcsetpgrp (shell_pgid s5)]\<rparr>)
       | r \<Rightarrow> r)"
    using assms True by (simp add: do_bgfg_def Let_def s4_def s3_def s2_def s1_def)
  from waitfg_cases [of "pid (jobs s4 ! i)" sched s4] show ?thesis
  proof
    assume "\<exists>s'. waitfg (pid (jobs s4 ! i)) sched s4 = Returns () s'"
    then obtain s' where w: "waitfg (pid (jobs s4 ! i)) sched s4 = Returns () s'" ..
    with k have "kills (events s') = kills (events s) @ [(- pgid (jobs s1 ! i), SIGCONT)]"
      by simp
    with w d show ?thesis
      by (simp add: kills_append s1_def)
  next
    assume "\<exists>s'. waitfg (pid (jobs s4 ! i)) sched s4 = Blocks s'"
    then obtain s' where w: "waitfg (pid (jobs s4 ! i)) sched s4 = Blocks s'" ..
    with k have "kills (events s') = kills (events s) @ [(- pgid (jobs s1 ! i), SIGCONT)]"
      by simp
    with w d show ?thesis
      by (simp add: s1_def)
  qed
qed

lemma do_bgfg_bg_returns: "\<exists>s'. do_bgfg argv False arr sched s = Returns () s'"
  by (simp add: do_bgfg_def Let_def split: option.splits)

lemma eval_bg:
  assumes "split_line_bg (take (MAXLINE - 1) cl) = (''bg'' # args, b)"
    and "do_bgfg (''bg'' # args) False (arrivals e) (acts e) s = Returns () s'"
  shows "eval cl e s = Returns () s'"
  using assms unfolding eval_def by (simp add: builtin_cmd_def)

lemma eval_launch_bg:
  assumes "split_line_bg (take (MAXLINE - 1) cl) = (c # args, True)"
  shows "c \<noteq> ''exit'' \<and> c \<noteq> ''quit'' \<and> c \<noteq> ''fg'' \<and> c \<noteq> ''bg'' \<and> fork_ret e \<noteq> 0 \<longrightarrow>
     eval cl e s =
       Returns ()
         (emit (Printf ''[%d] %d\<newline>''
                  [I (nextjid (run_stmts (launch_stmts (fork_ret e) True cl) (arrivals e) s) - 1),
                   I (fork_ret e)])
            (run_stmts (launch_stmts (fork_ret e) True cl) (arrivals e) s))"
  using assms unfolding eval_def by (simp add: builtin_cmd_def Let_def)

text \<open>
  C9. The claim is that every resume of a live job sends the continue signal to the
  negative of the job's process-group id, that is to the whole group. Two runs of the
  shell from its start. In the first, \<open>fork\<close> fails for \<open>ls &\<close>: \<open>eval\<close> does not
  test for it and registers job 1 with process id and group id \<open>-1\<close>; \<open>bg %1\<close> then
  sends SIGCONT to target 1, the single process 1. In the second, \<open>sleep 1 &\<close> is
  job 1 with process id and group id 100; during \<open>bg %1\<close> the process exits after
  \<open>getjob_jid\<close> has found its slot and before \<open>kill\<close> is called (SIGCHLD is not
  blocked in \<open>do_bgfg\<close>); the handler clears the slot and SIGCONT goes to target 0,
  the process group of the shell itself.
\<close>

theorem bgfg_signal_misses_group:
  "map (\<lambda>j. (pid j, pgid j, jid j))
     (filter (\<lambda>j. pid j \<noteq> 0) (jobs (final (tsh_main 50 [(''ls &\<newline>'', fork_fails)])))) =
     [(- 1, - 1, 1)] \<and>
   kills (events (final (tsh_main 50 [(''ls &\<newline>'', fork_fails), (''bg %1\<newline>'', quiet_env)]))) =
     [(1, SIGCONT)] \<and>
   map (\<lambda>j. (pid j, pgid j, jid j))
     (filter (\<lambda>j. pid j \<noteq> 0) (jobs (final (tsh_main 50 [(''sleep 1 &\<newline>'', quiet_env)])))) =
     [(100, 100, 1)] \<and>
   kills (events (final (tsh_main 50 [(''sleep 1 &\<newline>'', quiet_env),
                                        (''bg %1\<newline>'', exit_before_kill)]))) =
     [(0, SIGCONT)]"
proof -
  let ?s0 = "emit (Printf ''tsh> '' [])
       (initjobs
          (emit (SetSignal SIGTTOU SIG_IGN) (emit (SetSignal SIGTTIN SIG_IGN)
            (emit (SetSignal SIGTSTP SIG_IGN) (emit (SetSignal SIGINT SIG_IGN)
              (emit (SetSignal SIGCHLD Handler)
                (emit (Tcsetpgrp 50) (emit (Setpgid 50 50)
                  (startup\<lparr>shell_pgid := 50\<rparr>)))))))))"
  let ?a = "run_stmts (launch_stmts (- 1) True ''ls &\<newline>'') [] ?s0"
  let ?b = "run_stmts (launch_stmts 100 True ''sleep 1 &\<newline>'') [] ?s0"
  let ?a1 = "emit (Printf ''[%d] %d\<newline>'' [I (nextjid ?a - 1), I (- 1)]) ?a"
  let ?b1 = "emit (Printf ''[%d] %d\<newline>'' [I (nextjid ?b - 1), I 100]) ?b"
  have ta: "split_line_bg (take (MAXLINE - 1) ''ls &\<newline>'') = ([''ls''], True)"
    by code_simp
  have tb: "split_line_bg (take (MAXLINE - 1) ''sleep 1 &\<newline>'') = ([''sleep'', ''1''], True)"
    by code_simp
  have tc: "split_line_bg (take (MAXLINE - 1) ''bg %1\<newline>'') = (''bg'' # [''%1''], False)"
    by code_simp
  have ea: "eval ''ls &\<newline>'' fork_fails ?s0 = Returns () ?a1"
    using eval_launch_bg [OF ta, of fork_fails ?s0] by (simp add: fork_fails_def)
  have eb: "eval ''sleep 1 &\<newline>'' quiet_env ?s0 = Returns () ?b1"
    using eval_launch_bg [OF tb, of quiet_env ?s0] by (simp add: quiet_env_def)
  have ja: "map (\<lambda>j. (pid j, pgid j, jid j)) (filter (\<lambda>j. pid j \<noteq> 0) (jobs ?a)) =
              [(- 1, - 1, 1)]"
    by code_simp
  have jb: "map (\<lambda>j. (pid j, pgid j, jid j)) (filter (\<lambda>j. pid j \<noteq> 0) (jobs ?b)) =
              [(100, 100, 1)]"
    by code_simp
  have h: "2 \<le> length [''bg'', ''%1'']" "[''bg'', ''%1''] ! 1 \<noteq> []"
    "hd ([''bg'', ''%1''] ! 1) = CHR ''%''"
    by simp_all
  have ga: "getjob_jid (atoi (tl ([''bg'', ''%1''] ! 1))) (emit (Printf ''tsh> '' []) ?a1) = Some 0
      \<and> kills (events (emit (Printf ''tsh> '' []) ?a1)) = []
      \<and> pgid (jobs (deliver (arrival (arrivals quiet_env) 0) (emit (Printf ''tsh> '' []) ?a1)) ! 0)
          = - 1"
    by code_simp
  have gb: "getjob_jid (atoi (tl ([''bg'', ''%1''] ! 1))) (emit (Printf ''tsh> '' []) ?b1) = Some 0
      \<and> kills (events (emit (Printf ''tsh> '' []) ?b1)) = []
      \<and> pgid (jobs (deliver (arrival (arrivals exit_before_kill) 0)
                       (emit (Printf ''tsh> '' []) ?b1)) ! 0) = 0"
    by code_simp
  from do_bgfg_bg_returns obtain sa where
    ra: "do_bgfg [''bg'', ''%1''] False (arrivals quiet_env) (acts quiet_env)
           (emit (Printf ''tsh> '' []) ?a1) = Returns () sa"
    by blast
  from do_bgfg_bg_returns obtain sb where
    rb: "do_bgfg [''bg'', ''%1''] False (arrivals exit_before_kill) (acts exit_before_kill)
           (emit (Printf ''tsh> '' []) ?b1) = Returns () sb"
    by blast
  from do_bgfg_kill [OF h, of "emit (Printf ''tsh> '' []) ?a1" 0 False
         "arrivals quiet_env" "acts quiet_env"] ga ra
  have ka: "kills (events sa) = [(1, SIGCONT)]" by simp
  from do_bgfg_kill [OF h, of "emit (Printf ''tsh> '' []) ?b1" 0 False
         "arrivals exit_before_kill" "acts exit_before_kill"] gb rb
  have kb: "kills (events sb) = [(0, SIGCONT)]" by simp
  from eval_bg [OF tc ra] have ea2:
    "eval ''bg %1\<newline>'' quiet_env (emit (Printf ''tsh> '' []) ?a1) = Returns () sa" .
  from eval_bg [OF tc rb] have eb2:
    "eval ''bg %1\<newline>'' exit_before_kill (emit (Printf ''tsh> '' []) ?b1) = Returns () sb" .
  have 1: "map (\<lambda>j. (pid j, pgid j, jid j))
     (filter (\<lambda>j. pid j \<noteq> 0) (jobs (final (tsh_main 50 [(''ls &\<newline>'', fork_fails)])))) =
     [(- 1, - 1, 1)]"
    using ja by (simp add: tsh_main_def ea) (simp add: emit_def)
  have 2: "kills (events (final (tsh_main 50 [(''ls &\<newline>'', fork_fails),
                                               (''bg %1\<newline>'', quiet_env)]))) =
     [(1, SIGCONT)]"
    using ka by (simp add: tsh_main_def ea ea2) (simp add: emit_def kills_append)
  have 3: "map (\<lambda>j. (pid j, pgid j, jid j))
     (filter (\<lambda>j. pid j \<noteq> 0) (jobs (final (tsh_main 50 [(''sleep 1 &\<newline>'', quiet_env)])))) =
     [(100, 100, 1)]"
    using jb by (simp add: tsh_main_def eb) (simp add: emit_def)
  have 4: "kills (events (final (tsh_main 50 [(''sleep 1 &\<newline>'', quiet_env),
                                        (''bg %1\<newline>'', exit_before_kill)]))) =
     [(0, SIGCONT)]"
    using kb by (simp add: tsh_main_def eb eb2) (simp add: emit_def kills_append)
  from 1 2 3 4 show ?thesis by blast
qed

subsection \<open>fg and bg on a job id that names no job\<close>

lemma ghost_fg_fgpid: "ghost_fg s \<Longrightarrow> fgpid s = 0"
  by (auto simp: ghost_fg_def fgpid_def)

lemma ghost_fg_reap: "ghost_fg s \<Longrightarrow> 0 < p \<Longrightarrow> ghost_fg (reap p w s)"
  by (auto simp: ghost_fg_def reap_def getjob_pid_def deletejob_def Let_def
           split: option.splits wstatus.splits nat.splits)

lemma ghost_fg_drain: "ghost_fg s \<Longrightarrow> ghost_fg (drain ns s)"
  by (induction ns s rule: drain.induct) (auto simp: ghost_fg_reap)

lemma ghost_fg_handler:
  assumes "ghost_fg s"
  shows "ghost_fg (sigchld_handler s)"
proof -
  from assms have "ghost_fg (drain (pending s) s)" by (rule ghost_fg_drain)
  then show ?thesis by (simp add: sigchld_handler_def ghost_fg_def)
qed

lemma ghost_fg_waitfg: "ghost_fg s \<Longrightarrow> \<exists>s'. waitfg 0 sched s = Blocks s'"
proof (induction sched arbitrary: s)
  case Nil
  then show ?case by (simp add: ghost_fg_fgpid)
next
  case (Cons a sched)
  let ?s1 = "s\<lparr>pending := pending s @ a, events := events s @ [Sigsuspend]\<rparr>"
  from Cons.prems have "ghost_fg ?s1" by (simp add: ghost_fg_def)
  then have "ghost_fg (sigchld_handler ?s1)" by (rule ghost_fg_handler)
  from Cons.IH [OF this] Cons.prems show ?case by (simp add: ghost_fg_fgpid)
qed

lemma startup_jobs:
  "jobs startup =
     \<lparr>pid = 0, pgid = 0, jid = 0, state = UNDEF, cmdline = []\<rparr> #
     replicate 15 \<lparr>pid = 0, pgid = 0, jid = 0, state = UNDEF, cmdline = []\<rparr>"
  by code_simp

lemma atoi_0: "atoi ''0'' = 0"
  by code_simp

lemma atoi_x: "atoi ''x'' = 0"
  by code_simp

lemma tok_fg: "split_line_bg (take (MAXLINE - 1) ''fg %0\<newline>'') = ([''fg'', ''%0''], False)"
  by code_simp

lemma tok_bg: "split_line_bg (take (MAXLINE - 1) ''bg %x\<newline>'') = ([''bg'', ''%x''], False)"
  by code_simp

lemma errors_append: "errors (xs @ ys) = errors xs @ errors ys"
  by (induction xs rule: errors.induct) auto

lemma reap_free: "\<forall>x\<in>set (jobs s). pid x = 0 \<Longrightarrow> 0 < p \<Longrightarrow> reap p w s = s"
proof -
  assume a: "\<forall>x\<in>set (jobs s). pid x = 0" and p: "0 < p"
  then have "\<forall>k<length (jobs s). \<not> pid (jobs s ! k) = p" by auto
  then have "getjob_pid p s = None"
    unfolding getjob_pid_def by (rule first_slot_None)
  then show ?thesis by (simp add: reap_def)
qed

lemma drain_free: "\<forall>x\<in>set (jobs s). pid x = 0 \<Longrightarrow> drain ns s = s"
  by (induction ns s rule: drain.induct) (simp_all add: reap_free)

lemma deliver_free:
  assumes "\<forall>x\<in>set (jobs s). pid x = 0"
  shows "jobs (deliver new s) = jobs s \<and> events (deliver new s) = events s"
proof -
  have "drain q (s\<lparr>pending := q\<rparr>) = s\<lparr>pending := q\<rparr>" for q
    using assms by (intro drain_free) simp
  then show ?thesis
    by (simp add: deliver_def Let_def sigchld_handler_def)
qed

lemma do_bgfg_free_table_fg:
  assumes "jobs s = x # xs" and "jid x = 0" and "\<forall>y\<in>set (jobs s). pid y = 0"
  shows "\<exists>s'. do_bgfg [''fg'', ''%0''] True arr sched s = Blocks s' \<and>
           kills (events s') = kills (events s) @ [(- pgid x, SIGCONT)]"
proof -
  define s1 where "s1 = deliver (arrival arr 0) s"
  define s2 where "s2 = deliver (arrival arr 1)
                         (s1\<lparr>events := events s1 @ [Kill (- pgid (jobs s1 ! 0)) SIGCONT]\<rparr>)"
  define s3 where "s3 = deliver (arrival arr 2)
                         (s2\<lparr>jobs := (jobs s2)[0 := (jobs s2 ! 0)\<lparr>state := FG\<rparr>]\<rparr>)"
  define s4 where "s4 = deliver (arrival arr 3)
                         (s3\<lparr>events := events s3 @ [Tcsetpgrp (pgid (jobs s3 ! 0))]\<rparr>)"
  from assms have zx: "pid x = 0" by simp
  have j1: "jobs s1 = x # xs" "events s1 = events s"
    using deliver_free [OF assms(3), of "arrival arr 0"] assms(1) by (simp_all add: s1_def)
  have f1: "\<forall>y\<in>set (jobs (s1\<lparr>events := events s1 @ [Kill (- pgid (jobs s1 ! 0)) SIGCONT]\<rparr>)).
              pid y = 0"
    using j1 assms by simp
  have j2: "jobs s2 = x # xs" "events s2 = events s @ [Kill (- pgid x) SIGCONT]"
    using deliver_free [OF f1, of "arrival arr 1"] j1 by (simp_all add: s2_def)
  have f2: "\<forall>y\<in>set (jobs (s2\<lparr>jobs := (jobs s2)[0 := (jobs s2 ! 0)\<lparr>state := FG\<rparr>]\<rparr>)). pid y = 0"
    using j2 assms by simp
  have j3: "jobs s3 = (x\<lparr>state := FG\<rparr>) # xs" "events s3 = events s @ [Kill (- pgid x) SIGCONT]"
    using deliver_free [OF f2, of "arrival arr 2"] j2 by (simp_all add: s3_def)
  have f3: "\<forall>y\<in>set (jobs (s3\<lparr>events := events s3 @ [Tcsetpgrp (pgid (jobs s3 ! 0))]\<rparr>)).
              pid y = 0"
    using j3 assms by simp
  have j4: "jobs s4 = (x\<lparr>state := FG\<rparr>) # xs"
    "events s4 = events s @ [Kill (- pgid x) SIGCONT, Tcsetpgrp (pgid x)]"
    using deliver_free [OF f3, of "arrival arr 3"] j3 by (simp_all add: s4_def)
  have g: "ghost_fg s4" using j4 zx by (simp add: ghost_fg_def)
  from ghost_fg_waitfg [OF g] obtain s' where w: "waitfg 0 sched s4 = Blocks s'" ..
  have "kills (events (final (waitfg 0 sched s4))) = kills (events s4)"
    by (rule kills_waitfg)
  with w j4 have k: "kills (events s') = kills (events s) @ [(- pgid x, SIGCONT)]"
    by (simp add: kills_append)
  have p4: "pid (jobs s4 ! 0) = 0" using j4 zx by simp
  have "do_bgfg [''fg'', ''%0''] True arr sched s = Blocks s'"
    using assms(1,2) w p4
    by (simp add: do_bgfg_def atoi_0 getjob_jid_def Let_def s4_def s3_def s2_def s1_def)
  with k show ?thesis by blast
qed

lemma do_bgfg_free_table_bg:
  assumes "jobs s = x # xs" and "jid x = 0" and "\<forall>y\<in>set (jobs s). pid y = 0"
  shows "\<exists>s'. do_bgfg [''bg'', ''%x''] False arr sched s = Returns () s' \<and>
           kills (events s') = kills (events s) @ [(- pgid x, SIGCONT)] \<and>
           errors (events s') = errors (events s) \<and>
           state (hd (jobs s')) = BG \<and> pid (hd (jobs s')) = 0"
proof -
  define s1 where "s1 = deliver (arrival arr 0) s"
  define s2 where "s2 = deliver (arrival arr 1)
                         (s1\<lparr>events := events s1 @ [Kill (- pgid (jobs s1 ! 0)) SIGCONT]\<rparr>)"
  define s3 where "s3 = deliver (arrival arr 2)
                         (s2\<lparr>jobs := (jobs s2)[0 := (jobs s2 ! 0)\<lparr>state := BG\<rparr>]\<rparr>)"
  from assms have zx: "pid x = 0" by simp
  have j1: "jobs s1 = x # xs" "events s1 = events s"
    using deliver_free [OF assms(3), of "arrival arr 0"] assms(1) by (simp_all add: s1_def)
  have f1: "\<forall>y\<in>set (jobs (s1\<lparr>events := events s1 @ [Kill (- pgid (jobs s1 ! 0)) SIGCONT]\<rparr>)).
              pid y = 0"
    using j1 assms by simp
  have j2: "jobs s2 = x # xs" "events s2 = events s @ [Kill (- pgid x) SIGCONT]"
    using deliver_free [OF f1, of "arrival arr 1"] j1 by (simp_all add: s2_def)
  have f2: "\<forall>y\<in>set (jobs (s2\<lparr>jobs := (jobs s2)[0 := (jobs s2 ! 0)\<lparr>state := BG\<rparr>]\<rparr>)). pid y = 0"
    using j2 assms by simp
  have j3: "jobs s3 = (x\<lparr>state := BG\<rparr>) # xs" "events s3 = events s @ [Kill (- pgid x) SIGCONT]"
    using deliver_free [OF f2, of "arrival arr 2"] j2 by (simp_all add: s3_def)
  let ?s' = "s3\<lparr>events := events s3 @
                 [Printf ''[%d]+ %s&\<newline>'' [I (jid (jobs s3 ! 0)), S (cmdline (jobs s3 ! 0))]]\<rparr>"
  have "do_bgfg [''bg'', ''%x''] False arr sched s = Returns () ?s'"
    using assms(1,2)
    by (simp add: do_bgfg_def atoi_x getjob_jid_def Let_def s3_def s2_def s1_def)
  moreover have "kills (events ?s') = kills (events s) @ [(- pgid x, SIGCONT)]"
    using j3 by (simp add: kills_append)
  moreover have "errors (events ?s') = errors (events s)"
    using j3 by (simp add: errors_append)
  moreover have "state (hd (jobs ?s')) = BG \<and> pid (hd (jobs ?s')) = 0"
    using j3 zx by simp
  ultimately show ?thesis by blast
qed

lemma eval_fg_zero:
  "do_bgfg [''fg'', ''%0''] True (arrivals e) (acts e) s = Blocks s' \<Longrightarrow>
   eval ''fg %0\<newline>'' e s = Blocks s'"
  unfolding eval_def tok_fg by (simp add: builtin_cmd_def)

lemma eval_bg_x:
  "do_bgfg [''bg'', ''%x''] False (arrivals e) (acts e) s = Returns () s' \<Longrightarrow>
   eval ''bg %x\<newline>'' e s = Returns () s'"
  unfolding eval_def tok_bg by (simp add: builtin_cmd_def)

text \<open>
  C4. The claim is that \<open>fg\<close> and \<open>bg\<close> with a job id that names no live job print an
  error, change nothing, send no signal and return. Take the shell as \<open>main\<close> starts
  it, with no job at all. As first command, \<open>fg %0\<close> finds the free slot 0 (a free
  slot has the job id 0), sends SIGCONT to target 0, sets that slot's state to \<open>FG\<close>
  and waits for ever, whatever the children do later and whatever lines follow.
  \<open>bg %x\<close> reads the job id 0 as well (\<open>atoi\<close> of \<open>x\<close>): it sends SIGCONT to
  target 0, sets the free slot's state to \<open>BG\<close> and writes nothing to the error
  stream.
\<close>

theorem fg_bg_job_id_zero:
  "(\<exists>s'. tsh_main self ((''fg %0\<newline>'', e) # rest) = Blocks s' \<and>
         kills (events s') = [(0, SIGCONT)]) \<and>
   (\<exists>s'. tsh_main self [(''bg %x\<newline>'', e)] = Exits 0 s' \<and>
         kills (events s') = [(0, SIGCONT)] \<and> errors (events s') = [] \<and>
         state (hd (jobs s')) = BG \<and> pid (hd (jobs s')) = 0)"
proof -
  let ?z = "\<lparr>pid = 0, pgid = 0, jid = 0, state = UNDEF, cmdline = []\<rparr>"
  let ?s0 = "emit (Printf ''tsh> '' [])
       (initjobs
          (emit (SetSignal SIGTTOU SIG_IGN) (emit (SetSignal SIGTTIN SIG_IGN)
            (emit (SetSignal SIGTSTP SIG_IGN) (emit (SetSignal SIGINT SIG_IGN)
              (emit (SetSignal SIGCHLD Handler)
                (emit (Tcsetpgrp self) (emit (Setpgid self self)
                  (startup\<lparr>shell_pgid := self\<rparr>)))))))))"
  have j: "jobs ?s0 = ?z # replicate 15 ?z"
    by (simp add: emit_def initjobs_def startup_jobs clearjob_def)
  have z: "jid ?z = 0" by simp
  from j have f: "\<forall>y\<in>set (jobs ?s0). pid y = 0" by simp
  have k: "kills (events ?s0) = []" "errors (events ?s0) = []"
    by (simp_all add: emit_def initjobs_def startup_def)
  from do_bgfg_free_table_fg [OF j z f, of "arrivals e" "acts e"] k obtain s' where
    "do_bgfg [''fg'', ''%0''] True (arrivals e) (acts e) ?s0 = Blocks s'"
    "kills (events s') = [(0, SIGCONT)]"
    by auto
  then have fg: "\<exists>s'. tsh_main self ((''fg %0\<newline>'', e) # rest) = Blocks s' \<and>
         kills (events s') = [(0, SIGCONT)]"
    by (simp add: tsh_main_def eval_fg_zero)
  from do_bgfg_free_table_bg [OF j z f, of "arrivals e" "acts e"] k obtain s' where b:
    "do_bgfg [''bg'', ''%x''] False (arrivals e) (acts e) ?s0 = Returns () s'"
    "kills (events s') = [(0, SIGCONT)]" "errors (events s') = []"
    "state (hd (jobs s')) = BG" "pid (hd (jobs s')) = 0"
    by auto
  from b(1) have "eval ''bg %x\<newline>'' e ?s0 = Returns () s'"
    by (rule eval_bg_x)
  with b have bg: "\<exists>s'. tsh_main self [(''bg %x\<newline>'', e)] = Exits 0 s' \<and>
         kills (events s') = [(0, SIGCONT)] \<and> errors (events s') = [] \<and>
         state (hd (jobs s')) = BG \<and> pid (hd (jobs s')) = 0"
    by (simp add: tsh_main_def emit_def kills_append errors_append)
  from fg bg show ?thesis by blast
qed


subsection \<open>Launching: SIGCHLD is blocked from before the fork until the job is registered\<close>

lemma deliver_blocked:
  "sigchld_blocked s \<Longrightarrow> deliver new s = s\<lparr>pending := pending s @ new\<rparr>"
  by (simp add: deliver_def Let_def)

lemma launch_window:
  "run_stmts (take 4 (launch_stmts child bg cl)) arr s =
     (fst (addjob child child (if bg then BG else FG) cl
        (emit (Setpgid child child) (emit (Fork child) (sigprocmask_block s)))))
     \<lparr>pending := pending s @ concat (take 4 arr)\<rparr>"
proof -
  have t: "take 4 (launch_stmts child bg cl) =
      [sigprocmask_block, emit (Fork child), emit (Setpgid child child),
       (\<lambda>s. fst (addjob child child (if bg then BG else FG) cl s))]"
    by (simp add: launch_stmts_def)
  show ?thesis
    unfolding t
    by (cases arr; cases "tl arr"; cases "tl (tl arr)"; cases "tl (tl (tl arr))")
       (simp_all add: deliver_blocked sigprocmask_block_def emit_def addjob_fields)
qed

lemma launch_blocked:
  "1 \<le> k \<Longrightarrow> k \<le> 4 \<Longrightarrow>
   sigchld_blocked (run_stmts (take k (launch_stmts child bg cl)) arr s)"
proof -
  assume "1 \<le> k" "k \<le> 4"
  then consider "k = 1" | "k = 2" | "k = 3" | "k = 4" by linarith
  then show ?thesis
  proof cases
    case 1
    then show ?thesis
      by (simp add: launch_stmts_def deliver_blocked sigprocmask_block_def emit_def)
  next
    case 2
    have "take 2 (launch_stmts child bg cl) = [sigprocmask_block, emit (Fork child)]"
      by (simp add: launch_stmts_def)
    with 2 show ?thesis
      by (simp add: deliver_blocked sigprocmask_block_def emit_def)
  next
    case 3
    have "take 3 (launch_stmts child bg cl) =
        [sigprocmask_block, emit (Fork child), emit (Setpgid child child)]"
      by (simp add: launch_stmts_def)
    with 3 show ?thesis
      by (simp add: deliver_blocked sigprocmask_block_def emit_def)
  next
    case 4
    then show ?thesis
      by (simp add: launch_window addjob_fields sigprocmask_block_def emit_def)
  qed
qed

lemma launch_all:
  "run_stmts (launch_stmts child bg cl) arr s =
     deliver (case drop 4 arr of [] \<Rightarrow> [] | a # r \<Rightarrow> a)
       (sigprocmask_unblock (run_stmts (take 4 (launch_stmts child bg cl)) arr s))"
proof -
  have split: "run_stmts (fs @ [g]) arr s =
      deliver (case drop (length fs) arr of [] \<Rightarrow> [] | a # r \<Rightarrow> a)
        (g (run_stmts fs arr s))" for fs g arr s
  proof (induction fs arbitrary: arr s)
    case Nil
    then show ?case by simp
  next
    case (Cons f fs)
    show ?case by (simp add: Cons.IH drop_Suc)
  qed
  have len: "length (take 4 (launch_stmts child bg cl)) = 4"
    by (simp add: launch_stmts_def)
  have "launch_stmts child bg cl = take 4 (launch_stmts child bg cl) @ [sigprocmask_unblock]"
    by (simp add: launch_stmts_def)
  then have "run_stmts (launch_stmts child bg cl) arr s =
      run_stmts (take 4 (launch_stmts child bg cl) @ [sigprocmask_unblock]) arr s"
    by simp
  also have "\<dots> = deliver (case drop 4 arr of [] \<Rightarrow> [] | a # r \<Rightarrow> a)
       (sigprocmask_unblock (run_stmts (take 4 (launch_stmts child bg cl)) arr s))"
    using split [of "take 4 (launch_stmts child bg cl)" sigprocmask_unblock arr s] len
    by simp
  finally show ?thesis .
qed

text \<open>
  C1, as amended. In \<open>eval\<close>, whatever child state changes arrive and whenever: the
  state in which \<open>sigprocmask(SIG_UNBLOCK)\<close> is executed is the one that the four
  statements before it (block, fork, setpgid, addjob) produce by themselves, with
  every arrival still pending, so no notification was handled since the block;
  SIGCHLD is blocked at every point from after the block to the unblock, and the block
  comes before the fork; and when the table had a free slot, the job of the new
  process is in the table when SIGCHLD is unblocked. Nothing is said of a full table.
\<close>

theorem eval_blocks_sigchld_until_registered:
  assumes "\<exists>x\<in>set (jobs s). pid x = 0"
  shows
    "run_stmts (take 4 (launch_stmts child bg cl)) arr s =
       (fst (addjob child child (if bg then BG else FG) cl
          (emit (Setpgid child child) (emit (Fork child) (sigprocmask_block s)))))
       \<lparr>pending := pending s @ concat (take 4 arr)\<rparr> \<and>
     events (run_stmts (take 4 (launch_stmts child bg cl)) arr s) =
       events s @ [SigBlock SIGCHLD, Fork child, Setpgid child child] \<and>
     (\<forall>k. 1 \<le> k \<and> k \<le> 4 \<longrightarrow>
        sigchld_blocked (run_stmts (take k (launch_stmts child bg cl)) arr s)) \<and>
     getjob_pid child (run_stmts (take 4 (launch_stmts child bg cl)) arr s) \<noteq> None \<and>
     run_stmts (launch_stmts child bg cl) arr s =
       deliver (case drop 4 arr of [] \<Rightarrow> [] | a # r \<Rightarrow> a)
         (sigprocmask_unblock (run_stmts (take 4 (launch_stmts child bg cl)) arr s))"
proof -
  let ?s3 = "emit (Setpgid child child) (emit (Fork child) (sigprocmask_block s))"
  have free: "\<exists>x\<in>set (jobs ?s3). pid x = 0"
    using assms by (simp add: emit_def sigprocmask_block_def)
  have reg: "getjob_pid child (fst (addjob child child (if bg then BG else FG) cl ?s3)) \<noteq> None"
    by (rule addjob_registers [OF free])
  have ev: "events (fst (addjob child child (if bg then BG else FG) cl ?s3)) = events ?s3"
    by (rule addjob_events_free [OF free])
  have "getjob_pid child (run_stmts (take 4 (launch_stmts child bg cl)) arr s) \<noteq> None"
    using reg by (simp add: launch_window getjob_pid_def)
  moreover have "events (run_stmts (take 4 (launch_stmts child bg cl)) arr s) =
       events s @ [SigBlock SIGCHLD, Fork child, Setpgid child child]"
    using ev by (simp add: launch_window emit_def sigprocmask_block_def)
  ultimately show ?thesis
    using launch_window [of child bg cl arr s] launch_all [of child bg cl arr s]
    by (simp add: launch_blocked)
qed

theorem eval_blocks_sigchld_until_registered_witness:
  "(\<exists>x\<in>set (jobs startup). pid x = 0) \<and>
   getjob_pid 100 (run_stmts (take 4 (launch_stmts 100 False ''sleep 5''))
                     [[], [(100, Exited 0)]] startup) = Some 0 \<and>
   pending (run_stmts (take 4 (launch_stmts 100 False ''sleep 5''))
              [[], [(100, Exited 0)]] startup) = [(100, Exited 0)]"
proof -
  have h: "\<exists>x\<in>set (jobs startup). pid x = 0"
    by (simp add: startup_jobs)
  have c: "getjob_pid 100 (fst (addjob 100 100 (if False then BG else FG) ''sleep 5''
             (emit (Setpgid 100 100) (emit (Fork 100) (sigprocmask_block startup))))) = Some 0
           \<and> pending startup = []"
    by code_simp
  from eval_blocks_sigchld_until_registered [OF h, of 100 False "''sleep 5''"
         "[[], [(100, Exited 0)]]"] c h
  show ?thesis by (simp add: getjob_pid_def)
qed

text \<open>
  The claim C1 as it was stated fails on a full table: sixteen jobs are live, a
  seventeenth command is launched with process id 17. When SIGCHLD is unblocked no
  entry holds 17; the exit of 17 is then handled (nothing stays pending) with no
  entry to match, and the table is as before.
\<close>

theorem eval_unblocks_unregistered_counterexample:
  "getjob_pid 17 (run_stmts (take 4 (launch_stmts 17 True ''x &'')) [] sixteen_jobs) = None \<and>
   \<not> sigchld_blocked
       (run_stmts (launch_stmts 17 True ''x &'') [[], [], [], [], [(17, Exited 0)]]
          sixteen_jobs) \<and>
   pending (run_stmts (launch_stmts 17 True ''x &'') [[], [], [], [], [(17, Exited 0)]]
              sixteen_jobs) = [] \<and>
   jobs (run_stmts (launch_stmts 17 True ''x &'') [[], [], [], [], [(17, Exited 0)]]
           sixteen_jobs) = jobs sixteen_jobs"
  by code_simp

section \<open>The exit builtin in the three phases\<close>

subsection \<open>\<open>atoi\<close> reads back a decimal numeral\<close>

lemma ten_cases: "(d::nat) < 10 \<Longrightarrow> d = 0 \<or> d = 1 \<or> d = 2 \<or> d = 3 \<or> d = 4 \<or> d = 5 \<or> d = 6 \<or> d = 7 \<or> d = 8 \<or> d = 9"
  by arith

lemma digit_char: 
  assumes "d < 10"
  shows "isdigit (''0123456789'' ! d) \<and> \<not> isspace (''0123456789'' ! d) \<and> ''0123456789'' ! d \<noteq> CHR ''-'' \<and> ''0123456789'' ! d \<noteq> CHR ''+'' \<and> (of_char (''0123456789'' ! d) :: int) = 48 + int d"
  using ten_cases [OF assms] by (elim disjE) (simp_all add: isdigit_def isspace_def)

lemma digits_value_snoc: "digits_value (ds @ [c]) = 10 * digits_value ds + (of_char c - 48)"
  by (simp add: digits_value_def)

lemma decimal_props: "digits_value (decimal n) = int n \<and> (\<forall>c\<in>set (decimal n). isdigit c) \<and> decimal n \<noteq> [] \<and> \<not> isspace (hd (decimal n)) \<and> hd (decimal n) \<noteq> CHR ''-'' \<and> hd (decimal n) \<noteq> CHR ''+''"
proof (induction n rule: decimal.induct)
  case (1 n)
  show ?case
  proof (cases "n < 10")
    case True
    then have e: "decimal n = [''0123456789'' ! n]"
      by (subst decimal.simps) simp
    from True digit_char [of n] show ?thesis
      unfolding e by (simp add: digits_value_def)
  next
    case False
    then have e: "decimal n = decimal (n div 10) @ [''0123456789'' ! (n mod 10)]"
      by (subst decimal.simps) simp
    have m: "n mod 10 < 10" by simp
    have a: "10 * int (n div 10) + int (n mod 10) = int n" by presburger
    from False 1 digit_char [OF m] a show ?thesis
      unfolding e by (simp add: digits_value_snoc)
  qed
qed

lemma strtol10_numeral:
  assumes "- (2 ^ 63) \<le> i" and "i < 2 ^ 63"
  shows "strtol10 (numeral_of i) = i"
proof (cases "i < 0")
  case True
  let ?d = "decimal (nat (- i))"
  from decimal_props [of "nat (- i)"] True have v: "digits_value ?d = - i"
    by simp
  from decimal_props [of "nat (- i)"] have tw: "takeWhile isdigit ?d = ?d"
    by simp
  have "strtol10 (CHR ''-'' # ?d) = max (- (2 ^ 63)) (- digits_value (takeWhile isdigit ?d))"
    by (simp add: strtol10_def isspace_def Let_def)
  with True assms v show ?thesis
    by (simp add: numeral_of_def tw)
next
  case False
  let ?d = "decimal (nat i)"
  from decimal_props [of "nat i"] False have v: "digits_value ?d = i"
    by simp
  from decimal_props [of "nat i"] have tw: "takeWhile isdigit ?d = ?d"
    by simp
  from decimal_props [of "nat i"] have dw: "dropWhile isspace ?d = ?d"
    by (cases ?d) auto
  from decimal_props [of "nat i"] have h: "?d \<noteq> []" "hd ?d \<noteq> CHR ''-''" "hd ?d \<noteq> CHR ''+''"
    by simp_all
  have "strtol10 ?d = min (2 ^ 63 - 1) (digits_value (takeWhile isdigit ?d))"
    using h by (simp add: strtol10_def Let_def dw)
  with False assms v show ?thesis
    by (simp add: numeral_of_def tw)
qed

lemma atoi_numeral_status:
  assumes "- (2 ^ 63) \<le> i" and "i < 2 ^ 63"
  shows "atoi (numeral_of i) mod 256 = i mod 256"
proof -
  from assms have "strtol10 (numeral_of i) = i"
    by (rule strtol10_numeral)
  then have "atoi (numeral_of i) = signed_take_bit 31 i"
    by (simp add: atoi_def sint_sbintrunc')
  moreover have "take_bit 8 (signed_take_bit 31 i) = take_bit 8 i"
    by (simp add: take_bit_signed_take_bit)
  ultimately show ?thesis
    by (simp add: take_bit_eq_mod)
qed

subsection \<open>The words of the line \<open>exit N\<close>\<close>

lemma strtok_acc_word:
  "\<forall>c\<in>set w. c \<notin> set ds \<Longrightarrow> strtok_acc ds cur (w @ rest) = strtok_acc ds (cur @ w) rest"
  by (induction w arbitrary: cur) simp_all

lemma numeral_chars:
  "numeral_of n \<noteq> [] \<and> (\<forall>c\<in>set (numeral_of n). isdigit c \<or> c = CHR ''-'')"
  using decimal_props [of "nat n"] decimal_props [of "nat (- n)"]
  by (simp add: numeral_of_def)

lemma numeral_char_plain:
  "isdigit c \<or> c = CHR ''-'' \<Longrightarrow>
   \<not> is_blank c \<and> c \<notin> set [CHR '' '', CHR 0x09, CHR 0x0A]"
  by (auto simp: isdigit_def is_blank_def)

lemma dropWhile_keeps: "xs \<noteq> [] \<Longrightarrow> \<not> P (hd xs) \<Longrightarrow> dropWhile P (xs @ ys) = xs @ ys"
  by (cases xs) simp_all

lemma exit_line_tokens:
  "split_line (trim (''exit '' @ numeral_of n @ ''\<newline>'')) MAX_ARGS = [''exit'', numeral_of n]"
proof -
  let ?d = "numeral_of n"
  from numeral_chars [of n] numeral_char_plain
  have ne: "?d \<noteq> []" and nb: "\<forall>c\<in>set ?d. \<not> is_blank c"
    and nd: "\<forall>c\<in>set ?d. c \<notin> set [CHR '' '', CHR 0x09, CHR 0x0A]"
    by blast+
  from ne nb have l: "rev ?d \<noteq> []" "\<not> is_blank (hd (rev ?d))"
    by (simp_all add: hd_rev)
  have "dropWhile is_blank (rev (''exit '' @ ?d @ ''\<newline>'')) = rev ?d @ rev ''exit ''"
    using dropWhile_keeps [of "rev ?d" is_blank "rev ''exit ''"] l by (simp add: is_blank_def)
  then have tr: "trim (''exit '' @ ?d @ ''\<newline>'') = ''exit '' @ ?d"
    by (simp add: trim_def is_blank_def)
  have "strtok_acc [CHR '' '', CHR 0x09, CHR 0x0A] [] (?d @ []) =
        strtok_acc [CHR '' '', CHR 0x09, CHR 0x0A] ([] @ ?d) []"
    by (rule strtok_acc_word [OF nd])
  with ne have "strtok_acc [CHR '' '', CHR 0x09, CHR 0x0A] [] ?d = [?d]"
    by simp
  then have "strtok_all [CHR '' '', CHR 0x09, CHR 0x0A] (''exit '' @ ?d) = [''exit'', ?d]"
    by (simp add: strtok_all_def)
  then show ?thesis
    unfolding tr by (simp add: split_line_def MAX_ARGS_def)
qed

subsection \<open>What each phase does with exit\<close>

lemma split_line_Nil: "split_line [] n = []"
  by (simp add: split_line_def strtok_all_def)

lemma command1_exit:
  assumes "split_line (trim linebuf) MAX_ARGS = ''exit'' # rest"
  shows "command1 e linebuf p =
     Inl (Finish ((case rest of [] \<Rightarrow> 0 | a # r \<Rightarrow> atoi a) mod 256)
           (call (Printf ''Exiting (exit %d)\<newline>'' [I (case rest of [] \<Rightarrow> 0 | a # r \<Rightarrow> atoi a)])
              (call (Printf ''tinyshell$ '' []) p)))"
proof -
  from assms have "trim linebuf \<noteq> []"
    by (auto simp: split_line_Nil)
  with assms show ?thesis
    by (cases rest) (simp_all add: command1_def Let_def exit_status_def)
qed

lemma command2_exit:
  assumes "split_line (trim linebuf) MAX_ARGS = ''exit'' # rest"
  shows "command2 e linebuf p =
     Inl (Finish ((case rest of [] \<Rightarrow> 0 | a # r \<Rightarrow> atoi a) mod 256)
           (call (Printf ''Exiting (exit %d)\<newline>'' [I (case rest of [] \<Rightarrow> 0 | a # r \<Rightarrow> atoi a)])
              (call (Printf ''tinyshell$ '' []) p)))"
proof -
  from assms have "trim linebuf \<noteq> []"
    by (auto simp: split_line_Nil)
  with assms show ?thesis
    by (cases rest) (simp_all add: command2_def Let_def exit_status_def)
qed

lemma main_exit:
  assumes "split_line (trim linebuf) MAX_ARGS = ''exit'' # rest"
  shows "ended_with (main1 ((linebuf, e) # later) p) =
           Some ((case rest of [] \<Rightarrow> 0 | a # r \<Rightarrow> atoi a) mod 256) \<and>
         ended_with (main2 ((linebuf, e) # later) p) =
           Some ((case rest of [] \<Rightarrow> 0 | a # r \<Rightarrow> atoi a) mod 256)"
  by (simp add: command1_exit [OF assms] command2_exit [OF assms])

lemma main_exit_numeral:
  assumes "- (2 ^ 63) \<le> n" and "n < 2 ^ 63"
  shows "ended_with (main1 ((''exit '' @ numeral_of n @ ''\<newline>'', e) # later) p) = Some (n mod 256) \<and>
         ended_with (main2 ((''exit '' @ numeral_of n @ ''\<newline>'', e) # later) p) = Some (n mod 256)"
  using main_exit [OF exit_line_tokens, of n e later p] atoi_numeral_status [OF assms]
  by simp

lemma eval_exit:
  assumes "split_line_bg (take (MAXLINE - 1) cl) = (c # args, bg)" and "c = ''exit'' \<or> c = ''quit''"
  shows "eval cl e s = Exits 0 s"
  using assms by (auto simp: eval_def builtin_cmd_def)

text \<open>
  C3, as amended. In the shells of Phases 1 and 2, a line whose first word is \<open>exit\<close>
  ends the process, whatever lines follow, with the status \<open>atoi(a) mod 256\<close> where
  \<open>a\<close> is the second word, or with 0 when there is no second word: the status is the
  low eight bits of the value returned from \<open>main\<close>. So the line \<open>exit N\<close>, for
  every integer \<open>N\<close> from \<open>-2^63\<close> to \<open>2^63 - 1\<close> written in decimal, ends the process
  with the status \<open>N mod 256\<close>. In the shell of Phase 3, a line whose first word is
  \<open>exit\<close> or \<open>quit\<close> ends the process with the status 0, whatever follows.
\<close>

theorem exit_codes:
  "(split_line (trim linebuf) MAX_ARGS = ''exit'' # rest \<longrightarrow>
      ended_with (main1 ((linebuf, pe) # later) p) =
        Some ((case rest of [] \<Rightarrow> 0 | a # r \<Rightarrow> atoi a) mod 256) \<and>
      ended_with (main2 ((linebuf, pe) # later) p) =
        Some ((case rest of [] \<Rightarrow> 0 | a # r \<Rightarrow> atoi a) mod 256)) \<and>
   (- (2 ^ 63) \<le> n \<and> n < 2 ^ 63 \<longrightarrow>
      ended_with (main1 ((''exit '' @ numeral_of n @ ''\<newline>'', pe) # later) p) =
        Some (n mod 256) \<and>
      ended_with (main2 ((''exit '' @ numeral_of n @ ''\<newline>'', pe) # later) p) =
        Some (n mod 256)) \<and>
   (split_line_bg (take (MAXLINE - 1) cl) = (c # args, bg) \<and> (c = ''exit'' \<or> c = ''quit'') \<longrightarrow>
      eval cl e s = Exits 0 s)"
  using main_exit [of linebuf rest pe later p] main_exit_numeral [of n pe later p]
    eval_exit [of cl c args bg e s]
  by blast

theorem exit_codes_witness:
  "split_line (trim ''exit\<newline>'') MAX_ARGS = ''exit'' # [] \<and>
   ended_with (main1 ((''exit\<newline>'', plain_env) # []) tty_proc) = Some 0 \<and>
   ended_with (main2 ((''exit\<newline>'', plain_env) # []) tty_proc) = Some 0 \<and>
   numeral_of (- 1) = ''-1'' \<and>
   ended_with (main1 ((''exit '' @ numeral_of (- 1) @ ''\<newline>'', plain_env) # []) tty_proc) =
     Some 255 \<and>
   ended_with (main2 ((''exit '' @ numeral_of (- 1) @ ''\<newline>'', plain_env) # []) tty_proc) =
     Some 255 \<and>
   eval ''quit now'' quiet_env startup = Exits 0 startup"
proof -
  have t: "split_line (trim ''exit\<newline>'') MAX_ARGS = ''exit'' # []" by code_simp
  have r: "- (2 ^ 63) \<le> (- 1::int) \<and> (- 1::int) < 2 ^ 63" by simp
  have d: "numeral_of (- 1) = ''-1''" by code_simp
  have b: "split_line_bg (take (MAXLINE - 1) ''quit now'') = (''quit'' # [''now''], False) \<and>
           (''quit'' = ''exit'' \<or> ''quit'' = ''quit'')" by code_simp
  from exit_codes [of "''exit\<newline>''" "[]" plain_env "[]" tty_proc "- 1" "''quit now''"
         "''quit''" "[''now'']" False quiet_env startup] t r b
  have "ended_with (main1 ((''exit\<newline>'', plain_env) # []) tty_proc) = Some 0 \<and>
    ended_with (main2 ((''exit\<newline>'', plain_env) # []) tty_proc) = Some 0 \<and>
    ended_with (main1 ((''exit '' @ numeral_of (- 1) @ ''\<newline>'', plain_env) # []) tty_proc) =
      Some 255 \<and>
    ended_with (main2 ((''exit '' @ numeral_of (- 1) @ ''\<newline>'', plain_env) # []) tty_proc) =
      Some 255 \<and>
    eval ''quit now'' quiet_env startup = Exits 0 startup"
    by simp
  with t d show ?thesis by blast
qed

text \<open>
  The claim C3 as it was stated fails in each phase. In the shells of Phases 1 and 2,
  \<open>exit 300\<close> ends the process with the status 44; outside the range of \<open>long\<close>,
  where \<open>strtol\<close> saturates, \<open>exit 9223372036854775808\<close> (\<open>2^63\<close>) ends it with
  the status 255 and \<open>exit -9223372036854775809\<close> with the status 0, which is not
  the low eight bits of that number. In the shell of Phase 3, \<open>exit 3\<close> has the first
  argument 3 and ends the process with the status 0.
\<close>

theorem exit_codes_counterexample:
  "ended_with (main1 [(''exit 300\<newline>'', plain_env)] tty_proc) = Some 44 \<and>
   ended_with (main2 [(''exit 300\<newline>'', plain_env)] tty_proc) = Some 44 \<and>
   ended_with (main1 [(''exit 9223372036854775808\<newline>'', plain_env)] tty_proc) = Some 255 \<and>
   ended_with (main2 [(''exit 9223372036854775808\<newline>'', plain_env)] tty_proc) = Some 255 \<and>
   (9223372036854775808::int) mod 256 = 0 \<and>
   ended_with (main1 [(''exit -9223372036854775809\<newline>'', plain_env)] tty_proc) = Some 0 \<and>
   ended_with (main2 [(''exit -9223372036854775809\<newline>'', plain_env)] tty_proc) = Some 0 \<and>
   (- 9223372036854775809::int) mod 256 = 255 \<and>
   split_line_bg (take (MAXLINE - 1) ''exit 3'') = ([''exit'', ''3''], False) \<and>
   atoi ''3'' = 3 \<and> eval ''exit 3'' quiet_env startup = Exits 0 startup"
  by code_simp

section \<open>Phase 2: the pipeline parser\<close>

subsection \<open>The loop against the grammar\<close>

lemma stages_of_nonempty: "stages_of its \<noteq> []"
  by (induction its rule: stages_of.induct) auto

lemma stages_hd_tl: "hd (stages_of its) # tl (stages_of its) = stages_of its"
  by (simp add: stages_of_nonempty)

lemma parse_loop_fails:
  "length cur \<le> MAX_ARGS - 1 \<Longrightarrow> length prev + 1 \<le> MAX_CMDS \<Longrightarrow>
   loop_fails (parse_loop ts prev cur outf app) = fails_from prev cur outf (scan ts)"
proof (induction ts prev cur outf app rule: parse_loop.induct)
  case (1 prev cur outf app)
  then show ?case
    by (auto simp: loop_fails_def fails_from_def)
next
  case (2 tok rest prev cur outf app)
  show ?case
  proof (cases "tok = ''|''")
    case True
    note bar = True
    show ?thesis
    proof (cases "cur = []")
      case True
      with bar show ?thesis by (simp add: loop_fails_def fails_from_def)
    next
      case False
      note ne = False
      show ?thesis
      proof (cases "MAX_CMDS \<le> length prev + 1")
        case True
        with bar ne show ?thesis
          using stages_of_nonempty [of "scan rest"]
          by (cases "stages_of (scan rest)") (auto simp add: loop_fails_def fails_from_def)
      next
        case False
        with bar ne 2 have
          "loop_fails (parse_loop rest (prev @ [cur]) [] outf app) =
           fails_from (prev @ [cur]) [] outf (scan rest)"
          by (simp add: MAX_ARGS_def)
        with bar ne False "2.prems" show ?thesis
          using stages_hd_tl [of "scan rest"]
          by (auto simp add: fails_from_def Let_def)
      qed
    qed
  next
    case False
    note nobar = False
    show ?thesis
    proof (cases "tok = ''>'' \<or> tok = ''>>''")
      case True
      note redir = True
      show ?thesis
      proof (cases rest)
        case Nil
        with nobar redir show ?thesis by (auto simp: loop_fails_def fails_from_def)
      next
        case (Cons fl rest')
        show ?thesis
        proof (cases "outf = None")
          case True
          with nobar redir Cons 2 have
            "loop_fails (parse_loop rest' prev cur (Some fl)
               (if length tok > 1 \<and> tok ! 1 = CHR ''>'' then 1 else 0)) =
             fails_from prev cur (Some fl) (scan rest')"
            by simp
          with nobar redir Cons True show ?thesis
            by (auto simp add: fails_from_def Let_def)
        next
          case False
          with nobar redir Cons show ?thesis
            by (auto simp: loop_fails_def fails_from_def)
        qed
      qed
    next
      case False
      note word = False
      show ?thesis
      proof (cases "MAX_ARGS - 1 \<le> length cur")
        case True
        with nobar word show ?thesis
          by (auto simp: loop_fails_def fails_from_def)
      next
        case False
        with nobar word 2 have
          "loop_fails (parse_loop rest prev (cur @ [tok]) outf app) =
           fails_from prev (cur @ [tok]) outf (scan rest)"
          by simp
        with nobar word False show ?thesis
          by (auto simp add: fails_from_def Let_def)
      qed
    qed
  qed
qed

lemma parse_loop_result:
  "parse_loop ts prev cur outf app = Inr (pv, c, out, ap) \<Longrightarrow>
   pv @ [c] = prev @ (cur @ hd (stages_of (scan ts))) # tl (stages_of (scan ts)) \<and>
   (outf \<noteq> None \<longrightarrow> redirection (scan ts) = None) \<and>
   (case redirection (scan ts) of
      None \<Rightarrow> out = outf \<and> ap = app
    | Some (f, b) \<Rightarrow> out = Some f \<and> ap = (if b then 1 else 0))"
proof (induction ts prev cur outf app rule: parse_loop.induct)
  case (1 prev cur outf app)
  then show ?case by simp
next
  case (2 tok rest prev cur outf app)
  show ?case
  proof (cases "tok = ''|''")
    case True
    with "2.prems" have run: "cur \<noteq> []" "\<not> MAX_CMDS \<le> length prev + 1"
      "parse_loop rest (prev @ [cur]) [] outf app = Inr (pv, c, out, ap)"
      by (auto split: if_splits)
    from True run "2.IH"(1) show ?thesis
      using stages_hd_tl [of "scan rest"] by auto
  next
    case False
    note nobar = False
    show ?thesis
    proof (cases "tok = ''>'' \<or> tok = ''>>''")
      case True
      with nobar "2.prems" obtain fl rest' where run: "rest = fl # rest'" "outf = None"
        "parse_loop rest' prev cur (Some fl)
           (if length tok > 1 \<and> tok ! 1 = CHR ''>'' then 1 else 0) = Inr (pv, c, out, ap)"
        by (cases rest) (auto split: if_splits)
      have flag: "(length tok > 1 \<and> tok ! 1 = CHR ''>'') = (tok = ''>>'')"
        using True by auto
      from nobar True run "2.IH"(2) [OF nobar True run(1)] flag show ?thesis
        by auto
    next
      case False
      with nobar "2.prems" have run: "\<not> MAX_ARGS - 1 \<le> length cur"
        "parse_loop rest prev (cur @ [tok]) outf app = Inr (pv, c, out, ap)"
        by (auto split: if_splits)
      from nobar False run "2.IH"(3) show ?thesis
        by auto
    qed
  qed
qed

lemma parse_pipeline_fails: "isl (parse_pipeline ts) = parse_failure ts"
proof (cases ts)
  case Nil
  then show ?thesis by (simp add: parse_pipeline_def parse_failure_def)
next
  case (Cons t ts')
  have "isl (parse_pipeline ts) = loop_fails (parse_loop ts [] [] None 0)"
    using Cons by (auto simp: parse_pipeline_def loop_fails_def split: sum.splits)
  also have "\<dots> = fails_from [] [] None (scan ts)"
    by (rule parse_loop_fails) (simp_all add: MAX_CMDS_def)
  also have "\<dots> = parse_failure ts"
    by (simp add: fails_from_def parse_failure_def stages_hd_tl Let_def)
  finally show ?thesis .
qed

lemma parse_pipeline_result:
  assumes "parse_pipeline ts = Inr pl"
  shows "cmds pl = stages_of (scan ts) \<and> n_cmds pl = length (stages_of (scan ts)) \<and>
         (case redirection (scan ts) of
            None \<Rightarrow> outfile pl = None \<and> append_flag pl = 0
          | Some (f, b) \<Rightarrow> outfile pl = Some f \<and> append_flag pl = (if b then 1 else 0))"
proof -
  from assms obtain pv c out ap where
    run: "parse_loop ts [] [] None 0 = Inr (pv, c, out, ap)"
    and pl: "pl = \<lparr>cmds = pv @ [c], n_cmds = length pv + 1, outfile = out, append_flag = ap\<rparr>"
    by (auto simp: parse_pipeline_def split: if_splits sum.splits)
  from parse_loop_result [OF run] have
    st: "pv @ [c] = stages_of (scan ts)" and
    rd: "(case redirection (scan ts) of
      None \<Rightarrow> out = None \<and> ap = 0
    | Some (f, b) \<Rightarrow> out = Some f \<and> ap = (if b then 1 else 0))"
    by (simp_all add: stages_hd_tl)
  from st have "length pv + 1 = length (stages_of (scan ts))"
    by (metis length_append_singleton Suc_eq_plus1)
  with st rd pl show ?thesis by (auto split: option.splits)
qed

subsection \<open>A failed parse in the command loop\<close>

lemma forks_append: "forks (xs @ ys) = forks xs @ forks ys"
  by (induction xs rule: forks.induct) auto

lemma forks_parse_message: "forks (parse_message err) = []"
  by (cases err) simp_all

lemma command2_parse_error:
  assumes "isl (parse_pipeline (split_line (trim linebuf) MAX_ARGS))"
    and "hd (split_line (trim linebuf) MAX_ARGS) \<noteq> ''exit''"
  shows "\<exists>p'. command2 e linebuf p = Inr p' \<and> forks (calls p') = forks (calls p) \<and>
           fdt p' = fdt p \<and> files p' = files p \<and>
           main2 ((linebuf, e) # later) p = main2 later p'"
proof -
  let ?ts = "split_line (trim linebuf) MAX_ARGS"
  from assms(1) obtain err where err: "parse_pipeline ?ts = Inl err"
    by (cases "parse_pipeline ?ts") auto
  let ?p = "call (Printf ''tinyshell$ '' []) p"
  have "command2 e linebuf p = Inr ?p \<or>
        command2 e linebuf p = Inr (?p\<lparr>calls := calls ?p @ parse_message err\<rparr>)"
    using err assms(2) by (simp add: command2_def Let_def)
  then show ?thesis
    by (auto simp: call_def forks_append forks_parse_message)
qed

text \<open>
  C5, as amended. \<open>parse_pipeline\<close> fails exactly when some stage has no word (also
  the only stage of a sequence without \<open>|\<close>, as in the empty sequence or in a
  sequence made of a redirection alone), or a redirection operator is the last token,
  or there is more than one redirection operator, or there are more than \<open>MAX_CMDS\<close>
  (32) stages, or a stage has more than \<open>MAX_ARGS - 1\<close> (255) words; a token that
  follows a redirection operator is its file name and never an operator. When it
  succeeds the stages are those of the grammar. When it fails in the command loop, no
  \<open>fork\<close> is made, the descriptors and the files are as before, and the loop goes on
  with the next line.
\<close>

theorem parse_pipeline_fails_iff:
  "isl (parse_pipeline ts) = parse_failure ts \<and>
   (\<forall>pl. parse_pipeline ts = Inr pl \<longrightarrow>
      cmds pl = stages_of (scan ts) \<and> n_cmds pl = length (stages_of (scan ts))) \<and>
   (isl (parse_pipeline (split_line (trim linebuf) MAX_ARGS)) \<and>
    hd (split_line (trim linebuf) MAX_ARGS) \<noteq> ''exit'' \<longrightarrow>
      (\<exists>p'. command2 e linebuf p = Inr p' \<and> forks (calls p') = forks (calls p) \<and>
           fdt p' = fdt p \<and> files p' = files p \<and>
           main2 ((linebuf, e) # later) p = main2 later p'))"
  using parse_pipeline_fails [of ts] parse_pipeline_result [of ts]
    command2_parse_error [of linebuf e p later]
  by blast

theorem parse_pipeline_fails_iff_witness:
  "isl (parse_pipeline [''ls'', ''|'']) \<and> parse_failure [''ls'', ''|''] \<and>
   split_line (trim ''ls |'') MAX_ARGS = [''ls'', ''|''] \<and>
   (\<exists>p'. command2 plain_env ''ls |'' tty_proc = Inr p' \<and> forks (calls p') = [] \<and>
        fdt p' = fdt tty_proc \<and>
        main2 [(''ls |'', plain_env)] tty_proc = main2 [] p')"
proof -
  have t: "split_line (trim ''ls |'') MAX_ARGS = [''ls'', ''|'']" by code_simp
  have f: "parse_failure [''ls'', ''|'']" by code_simp
  have h: "hd [''ls'', ''|''] \<noteq> ''exit''" by simp
  have c: "forks (calls tty_proc) = []" by (simp add: tty_proc_def)
  from parse_pipeline_fails_iff [of "[''ls'', ''|'']" "''ls |''" plain_env tty_proc "[]"] t f h c
  show ?thesis by auto
qed

text \<open>
  The claim C5 as it was stated fails on the tokens \<open>> f\<close>: the parser rejects them
  (the only stage is empty) and none of the five stated conditions holds, since there
  is no \<open>|\<close>.
\<close>

theorem parse_pipeline_fails_iff_counterexample:
  "isl (parse_pipeline [''>'', ''f'']) \<and> \<not> stated_failure [''>'', ''f'']"
  by code_simp

subsection \<open>A redirection inserted anywhere\<close>

lemma parse_loop_keeps_redirect:
  "parse_loop ts prev cur (Some g) app = Inr (pv, c, out, ap) \<Longrightarrow> out = Some g \<and> ap = app"
  using parse_loop_result [of ts prev cur "Some g" app pv c out ap] by auto

lemma parse_loop_with_redirect:
  "parse_loop ts prev cur None app = Inr (pv, c, None, ap) \<Longrightarrow>
   parse_loop ts prev cur (Some g) b = Inr (pv, c, Some g, b)"
proof (induction ts arbitrary: prev cur)
  case Nil
  then show ?case by simp
next
  case (Cons tok rest)
  show ?case
  proof (cases "tok = ''|''")
    case True
    with Cons.prems have run: "cur \<noteq> []" "\<not> MAX_CMDS \<le> length prev + 1"
      "parse_loop rest (prev @ [cur]) [] None app = Inr (pv, c, None, ap)"
      by (auto split: if_splits)
    from Cons.IH [OF run(3)] True run(1,2) show ?thesis by simp
  next
    case False
    note nobar = False
    show ?thesis
    proof (cases "tok = ''>'' \<or> tok = ''>>''")
      case True
      with nobar Cons.prems obtain fl rest' where "rest = fl # rest'"
        "parse_loop rest' prev cur (Some fl)
           (if length tok > 1 \<and> tok ! 1 = CHR ''>'' then 1 else 0) = Inr (pv, c, None, ap)"
        by (cases rest) (auto split: if_splits)
      with parse_loop_keeps_redirect show ?thesis by blast
    next
      case False
      with nobar Cons.prems have run: "\<not> MAX_ARGS - 1 \<le> length cur"
        "parse_loop rest prev (cur @ [tok]) None app = Inr (pv, c, None, ap)"
        by (auto split: if_splits)
      from Cons.IH [OF run(2)] nobar False run(1) show ?thesis by simp
    qed
  qed
qed

lemma parse_loop_insert_redirect:
  assumes "op = ''>'' \<or> op = ''>>''"
  shows "parse_loop (xs @ ys) prev cur None app = Inr (pv, c, None, ap) \<Longrightarrow>
   parse_loop (xs @ op # f # ys) prev cur None app =
     Inr (pv, c, Some f, if op = ''>>'' then 1 else 0)"
proof (induction xs arbitrary: prev cur)
  case Nil
  from assms have "parse_loop (op # f # ys) prev cur None app =
      parse_loop ys prev cur (Some f) (if op = ''>>'' then 1 else 0)"
    by auto
  with Nil parse_loop_with_redirect [of ys prev cur app pv c ap f] show ?case by simp
next
  case (Cons tok rest)
  show ?case
  proof (cases "tok = ''|''")
    case True
    with Cons.prems have run: "cur \<noteq> []" "\<not> MAX_CMDS \<le> length prev + 1"
      "parse_loop (rest @ ys) (prev @ [cur]) [] None app = Inr (pv, c, None, ap)"
      by (auto split: if_splits)
    from Cons.IH [OF run(3)] True run(1,2) show ?thesis by simp
  next
    case False
    note nobar = False
    show ?thesis
    proof (cases "tok = ''>'' \<or> tok = ''>>''")
      case True
      with nobar Cons.prems obtain fl rest' where "rest @ ys = fl # rest'"
        "parse_loop rest' prev cur (Some fl)
           (if length tok > 1 \<and> tok ! 1 = CHR ''>'' then 1 else 0) = Inr (pv, c, None, ap)"
        by (cases "rest @ ys") (auto split: if_splits)
      with parse_loop_keeps_redirect show ?thesis by blast
    next
      case False
      with nobar Cons.prems have run: "\<not> MAX_ARGS - 1 \<le> length cur"
        "parse_loop (rest @ ys) prev (cur @ [tok]) None app = Inr (pv, c, None, ap)"
        by (auto split: if_splits)
      from Cons.IH [OF run(2)] nobar False run(1) show ?thesis by simp
    qed
  qed
qed

lemma parse_pipeline_insert_redirect:
  assumes "parse_pipeline (xs @ ys) = Inr pl" and "outfile pl = None"
    and "op = ''>'' \<or> op = ''>>''"
  shows "parse_pipeline (xs @ op # f # ys) =
           Inr (pl\<lparr>outfile := Some f, append_flag := (if op = ''>>'' then 1 else 0)\<rparr>)"
proof -
  from assms(1) obtain pv c out ap where
    run: "parse_loop (xs @ ys) [] [] None 0 = Inr (pv, c, out, ap)" and c: "c \<noteq> []"
    and pl: "pl = \<lparr>cmds = pv @ [c], n_cmds = length pv + 1, outfile = out, append_flag = ap\<rparr>"
    by (auto simp: parse_pipeline_def split: if_splits sum.splits)
  from pl assms(2) have "out = None" by simp
  with run parse_loop_insert_redirect [OF assms(3), of xs ys "[]" "[]" 0 pv c ap f]
  have "parse_loop (xs @ op # f # ys) [] [] None 0 =
     Inr (pv, c, Some f, if op = ''>>'' then 1 else 0)"
    by simp
  with c pl show ?thesis
    by (simp add: parse_pipeline_def)
qed

section \<open>Phase 2: running a pipeline\<close>

subsection \<open>Descriptors\<close>

lemma lowest_free_fresh: "lowest_free t \<notin> set (map fst t)"
proof -
  let ?K = "set (map fst t)"
  let ?C = "[0..<Suc (length t)]"
  have "\<exists>n\<in>set ?C. n \<notin> ?K"
  proof (rule ccontr)
    assume "\<not> (\<exists>n\<in>set ?C. n \<notin> ?K)"
    then have "set ?C \<subseteq> ?K" by auto
    then have "card (set ?C) \<le> card ?K" by (intro card_mono) auto
    moreover have "card ?K \<le> length t" using card_length [of "map fst t"] by simp
    moreover have "card (set ?C) = Suc (length t)" by simp
    ultimately show False by simp
  qed
  then have "filter (\<lambda>n. n \<notin> ?K) ?C \<noteq> []" by (simp add: filter_empty_conv)
  then have "hd (filter (\<lambda>n. n \<notin> ?K) ?C) \<in> set (filter (\<lambda>n. n \<notin> ?K) ?C)"
    by (rule hd_in_set)
  then have "hd (filter (\<lambda>n. n \<notin> ?K) ?C) \<in> {n \<in> set ?C. n \<notin> ?K}"
    by (simp only: set_filter)
  then have "hd (filter (\<lambda>n. n \<notin> ?K) ?C) \<notin> ?K"
    by blast
  then show ?thesis unfolding lowest_free_def .
qed

lemma map_of_fd_close: "map_of (fd_close k t) k' = (if k' = k then None else map_of t k')"
  by (induction t) (auto simp: fd_close_def)

lemma map_of_filter_keys:
  "map_of (filter (\<lambda>en. fst en \<notin> K) t) k = (if k \<in> K then None else map_of t k)"
  by (induction t) auto

lemma map_of_snoc:
  "map_of (t @ [(k, v)]) k' =
     (case map_of t k' of Some y \<Rightarrow> Some y | None \<Rightarrow> if k' = k then Some v else None)"
  by (simp add: map_add_def split: option.splits)

lemma map_of_absent: "k \<notin> set (map fst t) \<Longrightarrow> map_of t k = None"
  by (simp add: map_of_eq_None_iff)

lemma map_of_present: "k \<in> set (map fst t) \<Longrightarrow> \<exists>y. map_of t k = Some y"
  by (cases "map_of t k") (auto simp: map_of_eq_None_iff)

lemma filter_keys_disjoint:
  "K \<inter> set (map fst xs) = {} \<Longrightarrow> filter (\<lambda>en. fst en \<notin> K) xs = xs"
  by (induction xs) auto

lemma filter_keys_subset:
  "set (map fst ys) \<subseteq> K \<Longrightarrow> filter (\<lambda>en. fst en \<notin> K) ys = []"
  by (induction ys) auto

subsection \<open>Reading the calls\<close>

lemma pipe_calls_append: "pipe_calls (xs @ ys) = pipe_calls xs @ pipe_calls ys"
  by (induction xs rule: pipe_calls.induct) auto

lemma closed_fds_append: "closed_fds (xs @ ys) = closed_fds xs @ closed_fds ys"
  by (induction xs rule: closed_fds.induct) auto

lemma pipe_calls_map: "pipe_calls (map (\<lambda>(r, w). Pipe r w) ps) = ps"
  by (induction ps) auto

lemma closed_fds_map: "closed_fds (map Close fds) = fds"
  by (induction fds) auto

lemma pipe_calls_closes: "pipe_calls (map Close fds) = []"
  by (induction fds) auto

lemma closed_fds_pipes: "closed_fds (map (\<lambda>(r, w). Pipe r w) ps) = []"
  by (induction ps) auto

subsection \<open>The loops of the launcher\<close>

lemma keys_pipe_entries: "length is = length ps \<Longrightarrow> map fst (pipe_entries is ps) = pipe_ends ps"
  by (induction "is" ps rule: pipe_entries.induct) auto

lemma pipes_loop_inv:
  "pipes_loop e is acc p = (Some ps, p1) \<Longrightarrow>
   \<exists>new. ps = acc @ new \<and> length new = length is \<and>
         fdt p1 = fdt p @ pipe_entries is new \<and>
         files p1 = files p \<and>
         calls p1 = calls p @ map (\<lambda>(r, w). Pipe r w) new \<and>
         distinct (pipe_ends new) \<and>
         set (pipe_ends new) \<inter> set (map fst (fdt p)) = {}"
proof (induction "is" arbitrary: acc p)
  case Nil
  then show ?case by simp
next
  case (Cons i "is")
  from Cons.prems have ok: "pipe_ok e i"
    by (auto split: if_splits)
  obtain r w p' where sp: "sys_pipe i p = ((r, w), p')"
    by (cases "sys_pipe i p") auto
  from sp have p': "fdt p' = fdt p @ [(r, PipeR i), (w, PipeW i)]" "files p' = files p"
    "calls p' = calls p @ [Pipe r w]"
    by (auto simp: sys_pipe_def Let_def call_def)
  from sp have r: "r = lowest_free (fdt p)" and w: "w = lowest_free (fdt p @ [(r, PipeR i)])"
    by (auto simp: sys_pipe_def Let_def)
  from r have rf: "r \<notin> set (map fst (fdt p))" using lowest_free_fresh by blast
  from w have wf: "w \<notin> set (map fst (fdt p)) \<and> w \<noteq> r"
    using lowest_free_fresh [of "fdt p @ [(r, PipeR i)]"] by auto
  from Cons.prems ok sp have "pipes_loop e is (acc @ [(r, w)]) p' = (Some ps, p1)"
    by simp
  from Cons.IH [OF this] obtain new where n:
    "ps = (acc @ [(r, w)]) @ new" "length new = length is"
    "fdt p1 = fdt p' @ pipe_entries is new" "files p1 = files p'"
    "calls p1 = calls p' @ map (\<lambda>(r, w). Pipe r w) new"
    "distinct (pipe_ends new)" "set (pipe_ends new) \<inter> set (map fst (fdt p')) = {}"
    by blast
  have "ps = acc @ ((r, w) # new) \<and> length ((r, w) # new) = length (i # is) \<and>
         fdt p1 = fdt p @ pipe_entries (i # is) ((r, w) # new) \<and>
         files p1 = files p \<and>
         calls p1 = calls p @ map (\<lambda>(r, w). Pipe r w) ((r, w) # new) \<and>
         distinct (pipe_ends ((r, w) # new)) \<and>
         set (pipe_ends ((r, w) # new)) \<inter> set (map fst (fdt p)) = {}"
    using n p' rf wf by auto
  then show ?case by blast
qed

lemma pipes_loop_ok:
  "\<forall>i\<in>set is. pipe_ok e i \<Longrightarrow> \<exists>ps p1. pipes_loop e is acc p = (Some ps, p1)"
proof (induction "is" arbitrary: acc p)
  case Nil
  then show ?case by simp
next
  case (Cons i "is")
  obtain rw p' where sp: "sys_pipe i p = (rw, p')"
    by (cases "sys_pipe i p") auto
  from Cons.prems have "\<forall>i\<in>set is. pipe_ok e i" by simp
  from Cons.IH [OF this, of "acc @ [rw]" p'] Cons.prems sp show ?case by simp
qed

lemma close_pipes_props:
  "fdt (close_pipes ps p) = filter (\<lambda>en. fst en \<notin> set (pipe_ends ps)) (fdt p) \<and>
   files (close_pipes ps p) = files p \<and>
   calls (close_pipes ps p) = calls p @ map Close (pipe_ends ps)"
proof (induction ps arbitrary: p)
  case Nil
  then show ?case by simp
next
  case (Cons rw ps)
  obtain r w where rw: "rw = (r, w)" by (cases rw)
  show ?case
    unfolding rw
    by (simp add: Cons.IH sys_close_def call_def fd_close_def)
qed

lemma close_pipes_map:
  "map_of (fdt (close_pipes ps p)) k = (if k \<in> set (pipe_ends ps) then None else map_of (fdt p) k)"
  using close_pipes_props [of ps p] by (simp add: map_of_filter_keys)

lemma fork_loop_parent:
  "\<forall>i\<in>set is. fork_pid e i \<noteq> 0 \<Longrightarrow>
   \<exists>p' ev. fork_loop e pl pipes is p = Inr p' \<and> fdt p' = fdt p \<and> files p' = files p \<and>
       calls p' = calls p @ ev \<and> pipe_calls ev = [] \<and> closed_fds ev = []"
proof (induction "is" arbitrary: p)
  case Nil
  then show ?case by simp
next
  case (Cons i "is")
  let ?p1 = "call (Fork (fork_pid e i)) p"
  show ?case
  proof (cases "fork_pid e i < 0")
    case True
    then have "fork_loop e pl pipes (i # is) p = Inr (call (Perror ''fork'') ?p1)"
      by (simp add: Let_def)
    moreover have "calls (call (Perror ''fork'') ?p1) = calls p @ [Fork (fork_pid e i), Perror ''fork'']"
      by (simp add: call_def)
    ultimately show ?thesis
      by (intro exI [of _ "call (Perror ''fork'') ?p1"] exI [of _ "[Fork (fork_pid e i), Perror ''fork'']"])
         (simp add: call_def)
  next
    case False
    with Cons.prems have eq: "fork_loop e pl pipes (i # is) p = fork_loop e pl pipes is ?p1"
      by (simp add: Let_def)
    from Cons.prems have "\<forall>i\<in>set is. fork_pid e i \<noteq> 0" by simp
    from Cons.IH [OF this, of ?p1] obtain p' ev where
      h: "fork_loop e pl pipes is ?p1 = Inr p'" "fdt p' = fdt ?p1" "files p' = files ?p1"
         "calls p' = calls ?p1 @ ev" "pipe_calls ev = []" "closed_fds ev = []"
      by blast
    with eq show ?thesis
      by (intro exI [of _ p'] exI [of _ "Fork (fork_pid e i) # ev"]) (simp add: call_def)
  qed
qed

lemma wait_loop_props:
  "\<exists>ev. fdt (wait_loop ws p) = fdt p \<and> files (wait_loop ws p) = files p \<and>
        calls (wait_loop ws p) = calls p @ ev \<and> pipe_calls ev = [] \<and> closed_fds ev = [] \<and>
        forks ev = []"
proof (induction ws arbitrary: p)
  case Nil
  then show ?case by simp
next
  case (Cons a ws)
  obtain wpid w where a: "a = (wpid, w)" by (cases a)
  show ?case
  proof (cases "wpid > 0")
    case False
    with a show ?thesis by simp
  next
    case True
    let ?p1 = "(case w of
             Exited c \<Rightarrow> call (Printf ''[pid %d] exited with code %d\<newline>'' [I wpid, I c]) p
           | Signaled sg \<Rightarrow>
               call (Printf ''[pid %d] killed by signal %d (%s)\<newline>''
                       [I wpid, I sg, Strsignal sg]) p
           | _ \<Rightarrow> call (Printf ''[pid %d] ended with status 0x%x\<newline>'' [I wpid, W w]) p)"
    obtain m where m: "?p1 = call m p" "pipe_calls [m] = []" "closed_fds [m] = []"
      "forks [m] = []"
      by (cases w) auto
    from Cons.IH [of ?p1] obtain ev where
      h: "fdt (wait_loop ws ?p1) = fdt ?p1" "files (wait_loop ws ?p1) = files ?p1"
         "calls (wait_loop ws ?p1) = calls ?p1 @ ev" "pipe_calls ev = []" "closed_fds ev = []"
         "forks ev = []"
      by blast
    have "wait_loop (a # ws) p = wait_loop ws ?p1"
      using a True by simp
    with h m show ?thesis
      by (intro exI [of _ "m # ev"]) (cases m; simp add: call_def)
  qed
qed

lemma execute_pipeline_launcher:
  assumes "\<forall>i<n_cmds pl - 1. pipe_ok e i" and "\<forall>i<n_cmds pl. fork_pid e i \<noteq> 0"
  shows "\<exists>p' ps ev2 ev4. execute_pipeline e pl p = Inr p' \<and>
           calls p' = calls p @ map (\<lambda>(r, w). Pipe r w) ps @ ev2
                        @ map Close (pipe_ends ps) @ ev4 \<and>
           length ps = n_cmds pl - 1 \<and>
           pipe_calls ev2 = [] \<and> closed_fds ev2 = [] \<and>
           pipe_calls ev4 = [] \<and> closed_fds ev4 = [] \<and> forks ev4 = [] \<and>
           distinct (pipe_ends ps) \<and>
           set (pipe_ends ps) \<inter> set (map fst (fdt p)) = {} \<and>
           fdt p' = fdt p \<and> files p' = files p"
proof -
  let ?n = "n_cmds pl"
  from assms(1) have "\<forall>i\<in>set [0..<?n - 1]. pipe_ok e i" by simp
  from pipes_loop_ok [OF this, of "[]" p] obtain ps p1 where
    pl1: "pipes_loop e [0..<?n - 1] [] p = (Some ps, p1)" by blast
  from pipes_loop_inv [OF pl1] have inv:
    "length ps = ?n - 1" "fdt p1 = fdt p @ pipe_entries [0..<?n - 1] ps" "files p1 = files p"
    "calls p1 = calls p @ map (\<lambda>(r, w). Pipe r w) ps" "distinct (pipe_ends ps)"
    "set (pipe_ends ps) \<inter> set (map fst (fdt p)) = {}"
    by auto
  from assms(2) have "\<forall>i\<in>set [0..<?n]. fork_pid e i \<noteq> 0" by simp
  from fork_loop_parent [OF this, of pl ps p1] obtain p2 ev2 where
    fl: "fork_loop e pl ps [0..<?n] p1 = Inr p2" "fdt p2 = fdt p1" "files p2 = files p1"
        "calls p2 = calls p1 @ ev2" "pipe_calls ev2 = []" "closed_fds ev2 = []"
    by blast
  let ?p3 = "close_pipes ps p2"
  from close_pipes_props [of ps p2] have cp:
    "fdt ?p3 = filter (\<lambda>en. fst en \<notin> set (pipe_ends ps)) (fdt p2)"
    "files ?p3 = files p2" "calls ?p3 = calls p2 @ map Close (pipe_ends ps)"
    by auto
  from wait_loop_props [of "reaped e" ?p3] obtain ev4 where
    wl: "fdt (wait_loop (reaped e) ?p3) = fdt ?p3" "files (wait_loop (reaped e) ?p3) = files ?p3"
        "calls (wait_loop (reaped e) ?p3) = calls ?p3 @ ev4" "pipe_calls ev4 = []"
        "closed_fds ev4 = []" "forks ev4 = []"
    by blast
  have keys: "map fst (pipe_entries [0..<?n - 1] ps) = pipe_ends ps"
    using inv(1) by (simp add: keys_pipe_entries)
  have "fdt ?p3 = fdt p"
    using cp(1) fl(2) inv(2) inv(6) keys
    by (simp add: filter_keys_disjoint filter_keys_subset)
  moreover have "execute_pipeline e pl p = Inr (wait_loop (reaped e) ?p3)"
    using pl1 fl(1) by (simp add: execute_pipeline_def Let_def)
  moreover have "calls (wait_loop (reaped e) ?p3) =
      calls p @ map (\<lambda>(r, w). Pipe r w) ps @ ev2 @ map Close (pipe_ends ps) @ ev4"
    using wl(3) cp(3) fl(4) inv(4) by simp
  ultimately show ?thesis
    using inv wl cp(2) fl
    by (intro exI [of _ "wait_loop (reaped e) ?p3"] exI [of _ ps] exI [of _ ev2]
          exI [of _ ev4])
       simp
qed

text \<open>
  C7. When every \<open>pipe\<close> succeeds and the process followed is the launcher,
  \<open>execute_pipeline\<close> on \<open>N\<close> stages makes these calls, in this order: \<open>N - 1\<close>
  calls of \<open>pipe\<close>; the forks (with no \<open>pipe\<close> and no \<open>close\<close> among them); the
  \<open>close\<close> of both ends of every pipe it made, each once; the waiting (with no
  \<open>pipe\<close>, \<open>close\<close> or \<open>fork\<close>). The descriptors of the pipes are distinct and
  were not open before, and at the end the launcher's descriptor table is the one it
  started with. (For \<open>N = 0\<close>, which the parser never gives, no pipe is made.)
\<close>

theorem launcher_closes_every_pipe:
  assumes "\<forall>i<n_cmds pl - 1. pipe_ok e i" and "\<forall>i<n_cmds pl. fork_pid e i \<noteq> 0"
  shows "\<exists>p' ps ev2 ev4. execute_pipeline e pl p = Inr p' \<and>
           calls p' = calls p @ map (\<lambda>(r, w). Pipe r w) ps @ ev2
                        @ map Close (pipe_ends ps) @ ev4 \<and>
           length ps = n_cmds pl - 1 \<and>
           pipe_calls ev2 = [] \<and> closed_fds ev2 = [] \<and>
           pipe_calls ev4 = [] \<and> closed_fds ev4 = [] \<and> forks ev4 = [] \<and>
           distinct (pipe_ends ps) \<and>
           set (pipe_ends ps) \<inter> set (map fst (fdt p)) = {} \<and>
           fdt p' = fdt p"
  using execute_pipeline_launcher [OF assms, of p] by blast

theorem launcher_closes_every_pipe_witness:
  "\<exists>p' ps ev2 ev4. execute_pipeline plain_env three_stages tty_proc = Inr p' \<and>
      calls p' = calls tty_proc @ map (\<lambda>(r, w). Pipe r w) ps @ ev2
                   @ map Close (pipe_ends ps) @ ev4 \<and>
      length ps = 3 - 1 \<and>
      pipe_calls ev2 = [] \<and> closed_fds ev2 = [] \<and>
      pipe_calls ev4 = [] \<and> closed_fds ev4 = [] \<and> forks ev4 = [] \<and>
      fdt p' = fdt tty_proc"
proof -
  have n: "n_cmds three_stages = 3" by (simp add: three_stages_def)
  have h1: "\<forall>i<n_cmds three_stages - 1. pipe_ok plain_env i"
    by (simp add: plain_env_def)
  have h2: "\<forall>i<n_cmds three_stages. fork_pid plain_env i \<noteq> 0"
    by (simp add: plain_env_def)
  from launcher_closes_every_pipe [OF h1 h2, of tty_proc]
  obtain p' ps ev2 ev4 where
    "execute_pipeline plain_env three_stages tty_proc = Inr p'"
    "calls p' = calls tty_proc @ map (\<lambda>(r, w). Pipe r w) ps @ ev2
                  @ map Close (pipe_ends ps) @ ev4"
    "length ps = n_cmds three_stages - 1"
    "pipe_calls ev2 = []" "closed_fds ev2 = []"
    "pipe_calls ev4 = []" "closed_fds ev4 = []" "forks ev4 = []"
    "fdt p' = fdt tty_proc"
    by blast
  with n show ?thesis
    by (intro exI [of _ p'] exI [of _ ps] exI [of _ ev2] exI [of _ ev4]) simp
qed

subsection \<open>The process of one stage\<close>

lemma flag_bits:
  "redirect_flags pl AND O_CREAT \<noteq> 0"
  "(redirect_flags pl AND O_TRUNC = 0) = (append_flag pl \<noteq> 0)"
  "(redirect_flags pl AND O_APPEND = 0) = (append_flag pl = 0)"
  by (simp_all add: redirect_flags_def O_WRONLY_def O_CREAT_def O_TRUNC_def O_APPEND_def)

lemma sys_dup2_Some:
  assumes "map_of (fdt p) old = Some x"
  shows "\<exists>p'. sys_dup2 old new p = Some p' \<and> files p' = files p \<and>
           (\<forall>k. map_of (fdt p') k = (if k = new then Some x else map_of (fdt p) k))"
proof (cases "old = new")
  case True
  with assms show ?thesis by (simp add: sys_dup2_def call_def)
next
  case False
  with assms show ?thesis
    by (auto simp add: sys_dup2_def call_def map_of_fd_close map_of_snoc
             simp del: map_of_append split: option.splits)
qed

lemma sys_open_ok:
  assumes "may_open e path" and "flags AND O_CREAT \<noteq> 0"
  shows "\<exists>fd p'. sys_open e path flags mode p = Some (fd, p') \<and>
           fd \<notin> set (map fst (fdt p)) \<and>
           fdt p' = fdt p @ [(fd, File path flags 0)] \<and>
           files p' = (files p)(path \<mapsto>
              (if flags AND O_TRUNC = 0 then (case files p path of None \<Rightarrow> [] | Some c \<Rightarrow> c) else []))"
proof (cases "files p path")
  case None
  with assms lowest_free_fresh [of "fdt p"] show ?thesis
    by (simp add: sys_open_def Let_def call_def)
next
  case (Some c)
  then have "(files p)(path \<mapsto> c) = files p" by (rule map_upd_triv)
  with Some assms lowest_free_fresh [of "fdt p"] show ?thesis
    by (simp add: sys_open_def Let_def call_def)
qed

lemma redirect_output_ok:
  assumes "may_open e path" and "1 \<in> set (map fst (fdt p))"
  shows "\<exists>p'. redirect_output e pl path p = Inr p' \<and>
           (\<forall>k. map_of (fdt p') k =
              (if k = 1 then Some (File path (redirect_flags pl) 0) else map_of (fdt p) k)) \<and>
           files p' = (files p)(path \<mapsto> redirect_content pl (files p path))"
proof -
  let ?fl = "redirect_flags pl"
  from sys_open_ok [OF assms(1) flag_bits(1), of pl rw_all p]
  obtain fd p1 where o: "sys_open e path ?fl rw_all p = Some (fd, p1)"
    "fd \<notin> set (map fst (fdt p))" "fdt p1 = fdt p @ [(fd, File path ?fl 0)]"
    "files p1 = (files p)(path \<mapsto>
       (if ?fl AND O_TRUNC = 0 then (case files p path of None \<Rightarrow> [] | Some c \<Rightarrow> c) else []))"
    by blast
  from o(2) assms(2) have ne: "fd \<noteq> 1" by auto
  have nf: "map_of (fdt p) fd = None"
    using o(2) by (rule map_of_absent)
  have m1: "map_of (fdt p1) k = (if k = fd then Some (File path ?fl 0) else map_of (fdt p) k)" for k
    using nf by (simp add: o(3) map_of_snoc del: map_of_append split: option.splits)
  then have "map_of (fdt p1) fd = Some (File path ?fl 0)" by simp
  from sys_dup2_Some [OF this, of 1] obtain p2 where d:
    "sys_dup2 fd 1 p1 = Some p2" "files p2 = files p1"
    "\<forall>k. map_of (fdt p2) k = (if k = 1 then Some (File path ?fl 0) else map_of (fdt p1) k)"
    by blast
  have r: "redirect_output e pl path p = Inr (sys_close fd p2)"
    using o(1) d(1) by (simp add: redirect_output_def redirect_flags_def Let_def)
  have "map_of (fdt (sys_close fd p2)) k =
          (if k = 1 then Some (File path ?fl 0) else map_of (fdt p) k)" for k
    using d(3) m1 ne nf by (simp add: sys_close_def call_def map_of_fd_close)
  moreover have "files (sys_close fd p2) = (files p)(path \<mapsto> redirect_content pl (files p path))"
    using d(2) o(4) by (simp add: sys_close_def call_def redirect_content_def flag_bits)
  ultimately show ?thesis using r by blast
qed

lemma child_wire_stage:
  assumes n: "k < n_cmds pl"
    and stdin: "0 < k \<longrightarrow> map_of (fdt p) (fst (pipes ! (k - 1))) \<noteq> None"
    and stdout: "k + 1 < n_cmds pl \<longrightarrow>
                   map_of (fdt p) (snd (pipes ! k)) = Some (PipeW k) \<and>
                   (0 < k \<longrightarrow> snd (pipes ! k) \<noteq> 0)"
    and one: "1 \<in> set (map fst (fdt p))" "1 \<notin> set (pipe_ends (take (n_cmds pl - 1) pipes))"
    and perm: "\<forall>f. outfile pl = Some f \<longrightarrow> may_open e f"
  shows "\<exists>p'. child_wire e pl pipes k p = Inr p' \<and>
     (k + 1 < n_cmds pl \<longrightarrow>
        map_of (fdt p') 1 = Some (PipeW k) \<and> files p' = files p) \<and>
     (k + 1 = n_cmds pl \<longrightarrow>
        (case outfile pl of
           None \<Rightarrow> map_of (fdt p') 1 = map_of (fdt p) 1 \<and> files p' = files p
         | Some f \<Rightarrow>
             map_of (fdt p') 1 = Some (File f (redirect_flags pl) 0) \<and>
             files p' = (files p)(f \<mapsto> redirect_content pl (files p f))))"
proof -
  let ?n = "n_cmds pl"
  let ?close = "close_pipes (take (?n - 1) pipes)"
  have "\<exists>p1. (if k > 0 then sys_dup2 (fst (pipes ! (k - 1))) 0 p else Some p) = Some p1 \<and>
          files p1 = files p \<and> (\<forall>j. j \<noteq> 0 \<longrightarrow> map_of (fdt p1) j = map_of (fdt p) j)"
  proof (cases "k > 0")
    case True
    with stdin obtain x where "map_of (fdt p) (fst (pipes ! (k - 1))) = Some x" by auto
    from sys_dup2_Some [OF this, of 0] True show ?thesis by auto
  next
    case False
    then show ?thesis by simp
  qed
  then obtain p1 where p1:
    "(if k > 0 then sys_dup2 (fst (pipes ! (k - 1))) 0 p else Some p) = Some p1"
    "files p1 = files p" "\<forall>j. j \<noteq> 0 \<longrightarrow> map_of (fdt p1) j = map_of (fdt p) j"
    by blast
  from map_of_present [OF one(1)] p1(3) have "map_of (fdt p1) 1 \<noteq> None"
    by simp
  then have open1: "1 \<in> set (map fst (fdt p1))"
    by (simp add: map_of_eq_None_iff)
  have at1: "map_of (fdt (?close q)) 1 = map_of (fdt q) 1" for q
    using one(2) by (simp add: close_pipes_map)
  have fl: "files (?close q) = files q" for q
    using close_pipes_props [of "take (?n - 1) pipes" q] by simp
  show ?thesis
  proof (cases "k + 1 < ?n")
    case True
    have "map_of (fdt p1) (snd (pipes ! k)) = Some (PipeW k)"
    proof (cases "0 < k")
      case True
      with \<open>k + 1 < ?n\<close> stdout p1(3) show ?thesis by simp
    next
      case False
      with p1(1) have "p1 = p" by simp
      with \<open>k + 1 < ?n\<close> stdout show ?thesis by simp
    qed
    from sys_dup2_Some [OF this, of 1] obtain p2 where p2:
      "sys_dup2 (snd (pipes ! k)) 1 p1 = Some p2" "files p2 = files p1"
      "\<forall>j. map_of (fdt p2) j = (if j = 1 then Some (PipeW k) else map_of (fdt p1) j)"
      by blast
    from True p1(1) p2(1) have "child_wire e pl pipes k p = Inr (?close p2)"
      by (simp add: child_wire_def Let_def)
    with True p2 p1(2) at1 [of p2] fl [of p2] show ?thesis
      by simp
  next
    case False
    with n have last: "k + 1 = ?n" by simp
    show ?thesis
    proof (cases "outfile pl")
      case None
      with last p1(1) have "child_wire e pl pipes k p = Inr (?close p1)"
        by (simp add: child_wire_def Let_def)
      with last None p1 at1 [of p1] fl [of p1] show ?thesis
        by simp
    next
      case (Some f)
      with perm have "may_open e f" by simp
      from redirect_output_ok [OF this open1, of pl] obtain p3 where p3:
        "redirect_output e pl f p1 = Inr p3"
        "\<forall>j. map_of (fdt p3) j =
           (if j = 1 then Some (File f (redirect_flags pl) 0) else map_of (fdt p1) j)"
        "files p3 = (files p1)(f \<mapsto> redirect_content pl (files p1 f))"
        by blast
      from last Some p1(1) p3(1) have "child_wire e pl pipes k p = Inr (?close p3)"
        by (simp add: child_wire_def Let_def)
      with last Some p3 p1(2) at1 [of p3] fl [of p3] show ?thesis
        by simp
    qed
  qed
qed

lemma child_stage_wired:
  "child_wire e pl pipes k p = Inr p' \<Longrightarrow>
   fdt (proc_of (child_stage e pl pipes k p)) = fdt p' \<and>
   files (proc_of (child_stage e pl pipes k p)) = files p'"
  by (auto simp: child_stage_def Let_def call_def split: option.splits list.splits)

lemma fork_loop_follow:
  "\<forall>i\<in>set is. 0 < fork_pid e i \<Longrightarrow> fork_pid e k = 0 \<Longrightarrow>
   \<exists>p'. fork_loop e pl pipes (is @ k # rest) p = Inl (child_stage e pl pipes k p') \<and>
        fdt p' = fdt p \<and> files p' = files p"
proof (induction "is" arbitrary: p)
  case Nil
  then show ?case
    by (intro exI [of _ "call (Fork 0) p"]) (simp add: Let_def call_def)
next
  case (Cons i "is")
  let ?p1 = "call (Fork (fork_pid e i)) p"
  from Cons.prems have "\<forall>i\<in>set is. 0 < fork_pid e i" by simp
  from Cons.IH [OF this Cons.prems(2), of ?p1] obtain p' where h:
    "fork_loop e pl pipes (is @ k # rest) ?p1 = Inl (child_stage e pl pipes k p')"
    "fdt p' = fdt ?p1" "files p' = files ?p1"
    by blast
  from Cons.prems have "fork_loop e pl pipes ((i # is) @ k # rest) p =
      fork_loop e pl pipes (is @ k # rest) ?p1"
    by (simp add: Let_def)
  with h show ?case
    by (intro exI [of _ p']) (simp add: call_def)
qed

lemma pipe_entries_member:
  "j < length ps \<Longrightarrow> length is = length ps \<Longrightarrow>
   (fst (ps ! j), PipeR (is ! j)) \<in> set (pipe_entries is ps) \<and>
   (snd (ps ! j), PipeW (is ! j)) \<in> set (pipe_entries is ps)"
proof (induction "is" ps arbitrary: j rule: pipe_entries.induct)
  case (1 i "is" r w ps)
  then show ?case by (cases j) auto
qed auto

lemma pipe_ends_member:
  "j < length ps \<Longrightarrow> fst (ps ! j) \<in> set (pipe_ends ps) \<and> snd (ps ! j) \<in> set (pipe_ends ps)"
proof (induction ps arbitrary: j rule: pipe_ends.induct)
  case (2 r w ps)
  then show ?case by (cases j) auto
qed auto

lemma map_of_pipe_entries:
  assumes "j < length ps" and "length is = length ps" and "distinct (pipe_ends ps)"
    and "set (pipe_ends ps) \<inter> set (map fst t) = {}"
  shows "map_of (t @ pipe_entries is ps) (fst (ps ! j)) = Some (PipeR (is ! j)) \<and>
         map_of (t @ pipe_entries is ps) (snd (ps ! j)) = Some (PipeW (is ! j))"
proof -
  from assms(2,3) have d: "distinct (map fst (pipe_entries is ps))"
    by (simp add: keys_pipe_entries)
  from pipe_ends_member [OF assms(1)] assms(4)
  have "fst (ps ! j) \<notin> set (map fst t)" "snd (ps ! j) \<notin> set (map fst t)"
    by auto
  then have "map_of t (fst (ps ! j)) = None" "map_of t (snd (ps ! j)) = None"
    by (simp_all add: map_of_eq_None_iff)
  moreover from pipe_entries_member [OF assms(1,2)] d
  have "map_of (pipe_entries is ps) (fst (ps ! j)) = Some (PipeR (is ! j))"
       "map_of (pipe_entries is ps) (snd (ps ! j)) = Some (PipeW (is ! j))"
    by (simp_all add: map_of_is_SomeI)
  ultimately show ?thesis
    by (simp add: map_add_def)
qed

lemma upt_split: "k < n \<Longrightarrow> [0..<n] = [0..<k] @ k # [Suc k..<n]"
  using upt_add_eq_append [of 0 k "n - k"] by (simp add: upt_conv_Cons)

lemma followed_stage:
  assumes pipes: "\<forall>i<n_cmds pl - 1. pipe_ok e i"
    and before: "\<forall>i<k. 0 < fork_pid e i"
    and here: "fork_pid e k = 0"
    and k: "k < n_cmds pl"
    and stdin: "0 < k \<and> k + 1 < n_cmds pl \<longrightarrow> 0 \<in> set (map fst (fdt p))"
    and stdout: "1 \<in> set (map fst (fdt p))"
    and perm: "\<forall>f. outfile pl = Some f \<longrightarrow> may_open e f"
  shows "\<exists>fin. execute_pipeline e pl p = Inl fin \<and>
     (k + 1 < n_cmds pl \<longrightarrow>
        map_of (fdt (proc_of fin)) 1 = Some (PipeW k) \<and> files (proc_of fin) = files p) \<and>
     (k + 1 = n_cmds pl \<longrightarrow>
        (case outfile pl of
           None \<Rightarrow> map_of (fdt (proc_of fin)) 1 = map_of (fdt p) 1 \<and>
                   files (proc_of fin) = files p
         | Some f \<Rightarrow>
             map_of (fdt (proc_of fin)) 1 = Some (File f (redirect_flags pl) 0) \<and>
             files (proc_of fin) = (files p)(f \<mapsto> redirect_content pl (files p f))))"
proof -
  let ?n = "n_cmds pl"
  from pipes have "\<forall>i\<in>set [0..<?n - 1]. pipe_ok e i" by simp
  from pipes_loop_ok [OF this, of "[]" p] obtain ps p1 where
    pl1: "pipes_loop e [0..<?n - 1] [] p = (Some ps, p1)" by blast
  from pipes_loop_inv [OF pl1] have inv:
    "length ps = ?n - 1" "fdt p1 = fdt p @ pipe_entries [0..<?n - 1] ps" "files p1 = files p"
    "distinct (pipe_ends ps)" "set (pipe_ends ps) \<inter> set (map fst (fdt p)) = {}"
    by auto
  from k have "[0..<?n] = [0..<k] @ k # [Suc k..<?n]"
    by (rule upt_split)
  moreover from before have "\<forall>i\<in>set [0..<k]. 0 < fork_pid e i" by simp
  from fork_loop_follow [OF this here, of pl ps "[Suc k..<?n]" p1]
  obtain p2 where p2:
    "fork_loop e pl ps ([0..<k] @ k # [Suc k..<?n]) p1 = Inl (child_stage e pl ps k p2)"
    "fdt p2 = fdt p1" "files p2 = files p1"
    by blast
  ultimately have ex: "execute_pipeline e pl p = Inl (child_stage e pl ps k p2)"
    using pl1 by (simp add: execute_pipeline_def Let_def)
  have len: "length [0..<?n - 1] = length ps" using inv(1) by simp
  have a1: "0 < k \<longrightarrow> map_of (fdt p2) (fst (ps ! (k - 1))) \<noteq> None"
  proof
    assume "0 < k"
    with k have "k - 1 < length ps" using inv(1) by simp
    from map_of_pipe_entries [OF this len inv(4,5)] show
      "map_of (fdt p2) (fst (ps ! (k - 1))) \<noteq> None"
      by (simp add: p2(2) inv(2))
  qed
  have a2: "k + 1 < ?n \<longrightarrow> map_of (fdt p2) (snd (ps ! k)) = Some (PipeW k) \<and>
            (0 < k \<longrightarrow> snd (ps ! k) \<noteq> 0)"
  proof
    assume lt: "k + 1 < ?n"
    then have kl: "k < length ps" using inv(1) by simp
    from map_of_pipe_entries [OF kl len inv(4,5)] kl inv(1)
    have "map_of (fdt p2) (snd (ps ! k)) = Some (PipeW k)"
      by (simp add: p2(2) inv(2))
    moreover have "0 < k \<longrightarrow> snd (ps ! k) \<noteq> 0"
    proof
      assume "0 < k"
      with lt stdin have "0 \<in> set (map fst (fdt p))" by simp
      with pipe_ends_member [OF kl] inv(5) show "snd (ps ! k) \<noteq> 0" by auto
    qed
    ultimately show "map_of (fdt p2) (snd (ps ! k)) = Some (PipeW k) \<and>
            (0 < k \<longrightarrow> snd (ps ! k) \<noteq> 0)" by simp
  qed
  have a3: "1 \<in> set (map fst (fdt p2))"
    using stdout by (simp add: p2(2) inv(2))
  have a4: "1 \<notin> set (pipe_ends (take (?n - 1) ps))"
    using stdout inv(1,5) by auto
  from child_wire_stage [OF k a1 a2 a3 a4 perm] obtain p3 where w:
    "child_wire e pl ps k p2 = Inr p3"
    "k + 1 < ?n \<longrightarrow> map_of (fdt p3) 1 = Some (PipeW k) \<and> files p3 = files p2"
    "k + 1 = ?n \<longrightarrow>
        (case outfile pl of
           None \<Rightarrow> map_of (fdt p3) 1 = map_of (fdt p2) 1 \<and> files p3 = files p2
         | Some f \<Rightarrow>
             map_of (fdt p3) 1 = Some (File f (redirect_flags pl) 0) \<and>
             files p3 = (files p2)(f \<mapsto> redirect_content pl (files p2 f)))"
    by blast
  from map_of_present [OF stdout] have "map_of (fdt p2) 1 = map_of (fdt p) 1"
    by (auto simp add: p2(2) inv(2) map_add_def)
  with w child_stage_wired [OF w(1)] ex p2(3) inv(3) show ?thesis
    by (auto split: option.splits)
qed

lemma three_stages_parse:
  "parse_pipeline [''ls'', ''|'', ''grep'', ''c'', ''|'', ''wc'', ''>>'', ''out.txt''] = Inr three_stages"
  by code_simp

lemma sys_write_file:
  assumes "map_of (fdt q) fd = Some (File f fl 0)" and "files q f = Some c"
  shows "files (sys_write fd d q) f =
           Some (if fl AND O_APPEND = 0 then d @ drop (length d) c else c @ d)"
  using assms by (simp add: sys_write_def Let_def)

subsection \<open>Redirection when the standard descriptors are open\<close>

text \<open>
  Take a token sequence that parses, with a redirection to \<open>f\<close> (\<open>appending\<close> is
  true for \<open>>>\<close>), and follow the process of the last stage, in an environment where
  the pipes and the earlier forks succeed, \<open>f\<close> may be opened, and the launcher's
  standard output is open. Then at the end of that process (whether or not its program
  is found) descriptor 1 is the file \<open>f\<close>, opened write-only with \<open>O_CREAT\<close> and with
  \<open>O_TRUNC\<close> under \<open>>\<close>, \<open>O_APPEND\<close> under \<open>>>\<close>; the file exists, empty under
  \<open>>\<close>, with its prior content under \<open>>>\<close> (empty if it was absent); no other file
  is touched; and what is then written to descriptor 1 comes after that content.
\<close>

lemma redirection_when_stdout_open:
  assumes parse: "parse_pipeline ts = Inr pl"
    and redir: "redirection (scan ts) = Some (f, appending)"
    and pipes: "\<forall>i<n_cmds pl - 1. pipe_ok e i"
    and before: "\<forall>i<n_cmds pl - 1. 0 < fork_pid e i"
    and here: "fork_pid e (n_cmds pl - 1) = 0"
    and perm: "may_open e f"
    and stdout: "1 \<in> set (map fst (fdt p))"
  shows "\<exists>fin. execute_pipeline e pl p = Inl fin \<and>
     map_of (fdt (proc_of fin)) 1 =
       Some (File f ((O_WRONLY OR O_CREAT) OR (if appending then O_APPEND else O_TRUNC)) 0) \<and>
     files (proc_of fin) f =
       Some (if appending then (case files p f of None \<Rightarrow> [] | Some c \<Rightarrow> c) else []) \<and>
     (\<forall>g. g \<noteq> f \<longrightarrow> files (proc_of fin) g = files p g) \<and>
     (\<forall>d. files (sys_write 1 d (proc_of fin)) f =
        Some ((if appending then (case files p f of None \<Rightarrow> [] | Some c \<Rightarrow> c) else []) @ d))"
proof -
  from parse_pipeline_result [OF parse] redir have r:
    "n_cmds pl = length (stages_of (scan ts))" "outfile pl = Some f"
    "append_flag pl = (if appending then 1 else 0)"
    by simp_all
  from r(1) stages_of_nonempty [of "scan ts"] have n: "n_cmds pl - 1 < n_cmds pl"
    by (cases "stages_of (scan ts)") simp_all
  then have last: "n_cmds pl - 1 + 1 = n_cmds pl" by simp
  have perm': "\<forall>g. outfile pl = Some g \<longrightarrow> may_open e g"
    using r(2) perm by simp
  have stdin: "0 < n_cmds pl - 1 \<and> n_cmds pl - 1 + 1 < n_cmds pl \<longrightarrow> 0 \<in> set (map fst (fdt p))"
    using last by simp
  from followed_stage [OF pipes before here n stdin stdout perm'] last r(2)
  obtain fin where fin: "execute_pipeline e pl p = Inl fin"
    "map_of (fdt (proc_of fin)) 1 = Some (File f (redirect_flags pl) 0)"
    "files (proc_of fin) = (files p)(f \<mapsto> redirect_content pl (files p f))"
    by auto
  have fl: "redirect_flags pl = (O_WRONLY OR O_CREAT) OR (if appending then O_APPEND else O_TRUNC)"
    using r(3) by (simp add: redirect_flags_def)
  have ct: "redirect_content pl (files p f) =
      (if appending then (case files p f of None \<Rightarrow> [] | Some c \<Rightarrow> c) else [])"
    using r(3) by (simp add: redirect_content_def)
  from fin(3) have c: "files (proc_of fin) f = Some (redirect_content pl (files p f))"
    by simp
  from sys_write_file [OF fin(2) c] have w:
    "files (sys_write 1 d (proc_of fin)) f = Some (redirect_content pl (files p f) @ d)" for d
    using flag_bits(3) [of pl] r(3) by (cases appending) (simp_all add: redirect_content_def)
  from fin c w show ?thesis
    unfolding fl ct by (intro exI [of _ fin]) simp
qed

lemma redirection_when_stdout_open_example:
  "\<exists>fin. execute_pipeline (follow 2) three_stages old_file = Inl fin \<and>
     map_of (fdt (proc_of fin)) 1 =
       Some (File ''out.txt'' ((O_WRONLY OR O_CREAT) OR (if True then O_APPEND else O_TRUNC)) 0) \<and>
     files (proc_of fin) ''out.txt'' = Some ''old'' \<and>
     files (sys_write 1 ''new'' (proc_of fin)) ''out.txt'' = Some ''oldnew''"
proof -
  have h2: "redirection (scan [''ls'', ''|'', ''grep'', ''c'', ''|'', ''wc'', ''>>'', ''out.txt''])
              = Some (''out.txt'', True)"
    by code_simp
  have n: "n_cmds three_stages = 3" by (simp add: three_stages_def)
  have h3: "\<forall>i<n_cmds three_stages - 1. pipe_ok (follow 2) i"
    by (simp add: follow_def plain_env_def)
  have h4: "\<forall>i<n_cmds three_stages - 1. 0 < fork_pid (follow 2) i"
    by (simp add: follow_def plain_env_def n)
  have h5: "fork_pid (follow 2) (n_cmds three_stages - 1) = 0"
    by (simp add: follow_def n)
  have h6: "may_open (follow 2) ''out.txt''"
    by (simp add: follow_def plain_env_def)
  have h7: "1 \<in> set (map fst (fdt old_file))"
    by (simp add: old_file_def tty_proc_def)
  have o: "files old_file ''out.txt'' = Some ''old''"
    by (simp add: old_file_def)
  from redirection_when_stdout_open [OF three_stages_parse h2 h3 h4 h5 h6 h7] o
  show ?thesis by auto
qed

text \<open>
  Take a token sequence that parses with no redirection, and insert \<open>>\<close> or
  \<open>>>\<close> followed by a file name at any position of it. The result parses, with the
  same stages (the operator and the file name enter no argument vector), the file name
  and the mode recorded. In an environment where the pipes and the earlier forks
  succeed, the file may be opened and the launcher's standard input and output are
  open: the process of a stage that is not the last has the write end of its pipe as
  descriptor 1 and opens no file; the process of the last stage has the file as
  descriptor 1.
\<close>

lemma redirection_anywhere_when_stdio_open:
  assumes parse: "parse_pipeline (xs @ ys) = Inr pl" and none: "outfile pl = None"
    and op: "op = ''>'' \<or> op = ''>>''"
  shows "\<exists>pl'. parse_pipeline (xs @ op # f # ys) = Inr pl' \<and>
     cmds pl' = cmds pl \<and> n_cmds pl' = n_cmds pl \<and>
     outfile pl' = Some f \<and> append_flag pl' = (if op = ''>>'' then 1 else 0) \<and>
     (\<forall>e p k. (\<forall>i<n_cmds pl' - 1. pipe_ok e i) \<and> (\<forall>i<k. 0 < fork_pid e i) \<and>
         fork_pid e k = 0 \<and> k < n_cmds pl' \<and> may_open e f \<and>
         0 \<in> set (map fst (fdt p)) \<and> 1 \<in> set (map fst (fdt p)) \<longrightarrow>
         (\<exists>fin. execute_pipeline e pl' p = Inl fin \<and>
            (k + 1 < n_cmds pl' \<longrightarrow>
               map_of (fdt (proc_of fin)) 1 = Some (PipeW k) \<and> files (proc_of fin) = files p) \<and>
            (k + 1 = n_cmds pl' \<longrightarrow>
               map_of (fdt (proc_of fin)) 1 =
                 Some (File f ((O_WRONLY OR O_CREAT) OR
                                (if op = ''>>'' then O_APPEND else O_TRUNC)) 0))))"
proof -
  let ?pl = "pl\<lparr>outfile := Some f, append_flag := (if op = ''>>'' then 1 else 0)\<rparr>"
  have p: "parse_pipeline (xs @ op # f # ys) = Inr ?pl"
    by (rule parse_pipeline_insert_redirect [OF parse none op])
  have fl: "redirect_flags ?pl = (O_WRONLY OR O_CREAT) OR (if op = ''>>'' then O_APPEND else O_TRUNC)"
    by (simp add: redirect_flags_def)
  have "\<exists>fin. execute_pipeline e ?pl q = Inl fin \<and>
            (k + 1 < n_cmds ?pl \<longrightarrow>
               map_of (fdt (proc_of fin)) 1 = Some (PipeW k) \<and> files (proc_of fin) = files q) \<and>
            (k + 1 = n_cmds ?pl \<longrightarrow>
               map_of (fdt (proc_of fin)) 1 =
                 Some (File f ((O_WRONLY OR O_CREAT) OR
                                (if op = ''>>'' then O_APPEND else O_TRUNC)) 0))"
    if h: "(\<forall>i<n_cmds ?pl - 1. pipe_ok e i) \<and> (\<forall>i<k. 0 < fork_pid e i) \<and>
         fork_pid e k = 0 \<and> k < n_cmds ?pl \<and> may_open e f \<and>
         0 \<in> set (map fst (fdt q)) \<and> 1 \<in> set (map fst (fdt q))" for e q k
  proof -
    from h have a: "\<forall>i<n_cmds ?pl - 1. pipe_ok e i" "\<forall>i<k. 0 < fork_pid e i"
      "fork_pid e k = 0" "k < n_cmds ?pl"
      "0 < k \<and> k + 1 < n_cmds ?pl \<longrightarrow> 0 \<in> set (map fst (fdt q))"
      "1 \<in> set (map fst (fdt q))" "\<forall>g. outfile ?pl = Some g \<longrightarrow> may_open e g"
      by simp_all
    from followed_stage [OF a] fl show ?thesis
      by auto
  qed
  with p show ?thesis
    by (intro exI [of _ ?pl]) simp
qed

lemma redirection_anywhere_when_stdio_open_example:
  "\<exists>pl'. parse_pipeline ([''a''] @ ''>'' # ''f'' # [''|'', ''b'']) = Inr pl' \<and>
     cmds pl' = [[''a''], [''b'']] \<and> outfile pl' = Some ''f'' \<and> append_flag pl' = 0 \<and>
     (\<exists>fin. execute_pipeline (follow 0) pl' tty_proc = Inl fin \<and>
        map_of (fdt (proc_of fin)) 1 = Some (PipeW 0) \<and> files (proc_of fin) = files tty_proc) \<and>
     (\<exists>fin. execute_pipeline (follow 1) pl' tty_proc = Inl fin \<and>
        map_of (fdt (proc_of fin)) 1 =
          Some (File ''f'' ((O_WRONLY OR O_CREAT) OR O_TRUNC) 0))"
proof -
  let ?pl = "\<lparr>cmds = [[''a''], [''b'']], n_cmds = 2, outfile = None, append_flag = 0\<rparr>"
  have h1: "parse_pipeline ([''a''] @ [''|'', ''b'']) = Inr ?pl" by code_simp
  have h2: "outfile ?pl = None" by simp
  have h3: "''>'' = ''>'' \<or> ''>'' = ''>>''" by simp
  from redirection_anywhere_when_stdio_open [OF h1 h2 h3, of "''f''"]
  obtain pl' where pl': "parse_pipeline ([''a''] @ ''>'' # ''f'' # [''|'', ''b'']) = Inr pl'"
     "cmds pl' = cmds ?pl" "n_cmds pl' = n_cmds ?pl"
     "outfile pl' = Some ''f''" "append_flag pl' = (if ''>'' = ''>>'' then 1 else 0)"
     and ex: "\<And>e p k. (\<forall>i<n_cmds pl' - 1. pipe_ok e i) \<and> (\<forall>i<k. 0 < fork_pid e i) \<and>
         fork_pid e k = 0 \<and> k < n_cmds pl' \<and> may_open e ''f'' \<and>
         0 \<in> set (map fst (fdt p)) \<and> 1 \<in> set (map fst (fdt p)) \<Longrightarrow>
         (\<exists>fin. execute_pipeline e pl' p = Inl fin \<and>
            (k + 1 < n_cmds pl' \<longrightarrow>
               map_of (fdt (proc_of fin)) 1 = Some (PipeW k) \<and> files (proc_of fin) = files p) \<and>
            (k + 1 = n_cmds pl' \<longrightarrow>
               map_of (fdt (proc_of fin)) 1 =
                 Some (File ''f'' ((O_WRONLY OR O_CREAT) OR
                                (if ''>'' = ''>>'' then O_APPEND else O_TRUNC)) 0)))"
    by blast
  have e0: "(\<forall>i<n_cmds pl' - 1. pipe_ok (follow 0) i) \<and> (\<forall>i<0. 0 < fork_pid (follow 0) i) \<and>
         fork_pid (follow 0) 0 = 0 \<and> 0 < n_cmds pl' \<and> may_open (follow 0) ''f'' \<and>
         0 \<in> set (map fst (fdt tty_proc)) \<and> 1 \<in> set (map fst (fdt tty_proc))"
    using pl'(3) by (simp add: follow_def plain_env_def tty_proc_def)
  have e1: "(\<forall>i<n_cmds pl' - 1. pipe_ok (follow 1) i) \<and> (\<forall>i<1. 0 < fork_pid (follow 1) i) \<and>
         fork_pid (follow 1) 1 = 0 \<and> 1 < n_cmds pl' \<and> may_open (follow 1) ''f'' \<and>
         0 \<in> set (map fst (fdt tty_proc)) \<and> 1 \<in> set (map fst (fdt tty_proc))"
    using pl'(3) by (simp add: follow_def plain_env_def tty_proc_def)
  from ex [OF e0] ex [OF e1] pl' show ?thesis
    by (intro exI [of _ pl']) auto
qed

subsection \<open>Redirection when the standard output is closed\<close>

text \<open>
  C8. The claim is that, for every pipeline with an output redirection, the final
  stage's standard output is redirected to the file, which is emptied under \<open>>\<close> and
  keeps its content, with the new output appended, under \<open>>>\<close>. A shell started with
  its standard output closed reads \<open>echo hi > out.txt\<close>, where \<open>out.txt\<close> holds
  \<open>old\<close>; follow the process of the stage. \<open>open\<close> returns descriptor 1, the lowest
  that is free, and empties the file; \<open>dup2(fd, STDOUT_FILENO)\<close> is \<open>dup2(1, 1)\<close>
  and changes nothing; \<open>close(fd)\<close> then closes descriptor 1. \<open>/bin/echo\<close> is started
  with no standard output: what it writes to descriptor 1 does not reach the file,
  which stays empty. With \<open>>>\<close> the file keeps \<open>old\<close> and nothing is appended.
\<close>

theorem redirection_lost_without_stdout:
  "program_of (main2 [(''echo hi > out.txt\<newline>'', follow 0)] no_stdout) =
     Some (''/bin/echo'', [''echo'', ''hi'']) \<and>
   calls (proc_of (main2 [(''echo hi > out.txt\<newline>'', follow 0)] no_stdout)) =
     [Printf ''tinyshell$ '' [], Fork 0,
      Open ''out.txt'' ((O_WRONLY OR O_CREAT) OR O_TRUNC) rw_all, Dup2 1 1, Close 1] \<and>
   map_of (fdt (proc_of (main2 [(''echo hi > out.txt\<newline>'', follow 0)] no_stdout))) 1 = None \<and>
   files (proc_of (main2 [(''echo hi > out.txt\<newline>'', follow 0)] no_stdout)) ''out.txt'' =
     Some [] \<and>
   files (sys_write 1 ''hi\<newline>''
            (proc_of (main2 [(''echo hi > out.txt\<newline>'', follow 0)] no_stdout))) ''out.txt'' =
     Some [] \<and>
   calls (proc_of (main2 [(''echo hi >> out.txt\<newline>'', follow 0)] no_stdout)) =
     [Printf ''tinyshell$ '' [], Fork 0,
      Open ''out.txt'' ((O_WRONLY OR O_CREAT) OR O_APPEND) rw_all, Dup2 1 1, Close 1] \<and>
   map_of (fdt (proc_of (main2 [(''echo hi >> out.txt\<newline>'', follow 0)] no_stdout))) 1 = None \<and>
   files (sys_write 1 ''hi\<newline>''
            (proc_of (main2 [(''echo hi >> out.txt\<newline>'', follow 0)] no_stdout))) ''out.txt'' =
     Some ''old''"
  by code_simp

text \<open>
  C10. The claim is that a redirection is accepted at any token position and is always
  applied to the final stage's standard output. The same shell, started with its
  standard output closed, reads \<open>ls > out.txt | wc\<close>. The line parses: two stages,
  \<open>ls\<close> and \<open>wc\<close>, with the redirection recorded and in no argument vector. \<open>pipe\<close>
  returns the descriptors 1 and 3. In the process of the last stage, \<open>open\<close> returns
  4 and \<open>dup2(4, 1)\<close> makes descriptor 1 the file; but the loop that closes the pipes
  then closes descriptor 1, the number of the pipe's read end. \<open>/bin/wc\<close> is started
  with no standard output.
\<close>

theorem redirection_anywhere_lost_without_stdout:
  "parse_pipeline [''ls'', ''>'', ''out.txt'', ''|'', ''wc''] =
     Inr \<lparr>cmds = [[''ls''], [''wc'']], n_cmds = 2, outfile = Some ''out.txt'',
          append_flag = 0\<rparr> \<and>
   program_of (main2 [(''ls > out.txt | wc\<newline>'', follow 1)] no_stdout) =
     Some (''/bin/wc'', [''wc'']) \<and>
   calls (proc_of (main2 [(''ls > out.txt | wc\<newline>'', follow 1)] no_stdout)) =
     [Printf ''tinyshell$ '' [], Pipe 1 3, Fork 100, Fork 0, Dup2 1 0,
      Open ''out.txt'' ((O_WRONLY OR O_CREAT) OR O_TRUNC) rw_all, Dup2 4 1, Close 4,
      Close 1, Close 3] \<and>
   map_of (fdt (proc_of (main2 [(''ls > out.txt | wc\<newline>'', follow 1)] no_stdout))) 1 = None"
  by code_simp

end
